theory Spec2Isabelle
  imports Main "HOL-Library.Char_ord" "HOL-Library.List_Lexorder" "HOL-Library.Product_Lexorder"
    "HOL-Library.Multiset"
begin

section \<open>Python values\<close>

text \<open>
  The values that reach an output record of \<^verbatim>\<open>PyPoE/cli/exporter/wiki/parsers/lua.py\<close>:
  \<^verbatim>\<open>None\<close>, booleans, integers, floats, strings, and sequences (list, tuple, set) of
  these. A float is kept as the text that \<^verbatim>\<open>str()\<close> gives for it, which is all the
  exporter ever asks of a float. A set is kept as its elements in iteration order.
  A sequence holds scalars only, and a reference to a row of another table is not a
  value of this model: the field specs of the source dereference references by a transform.
\<close>

datatype atom = ANone | ABool bool | AInt int | AFloat string | AStr string

datatype pyval = Atom atom | Seq "atom list"

datatype err = KeyError | IndexError | TypeError | AttributeError | NotModelled

text \<open>
  A dictionary is the list of its items in insertion order (an \<^verbatim>\<open>OrderedDict\<close>, and
  every \<^verbatim>\<open>dict\<close> of Python 3.7 and later). An output record has string keys.
\<close>

type_synonym odict = "(string \<times> pyval) list"

abbreviation tab :: char where "tab \<equiv> CHR 0x09"
abbreviation nl :: char where "nl \<equiv> CHR 0x0A"
abbreviation dq :: char where "dq \<equiv> CHR 0x22"
abbreviation bs :: char where "bs \<equiv> CHR 0x5C"

text \<open>\<^verbatim>\<open>isinstance(v, int)\<close>: \<^verbatim>\<open>bool\<close> is a subclass of \<^verbatim>\<open>int\<close>.\<close>

fun is_int :: "atom \<Rightarrow> bool" where
  "is_int (AInt i) = True"
| "is_int (ABool b) = True"
| "is_int _ = False"

fun is_float :: "atom \<Rightarrow> bool" where
  "is_float (AFloat s) = True"
| "is_float _ = False"

subsection \<open>Formatting with \<^verbatim>\<open>%s\<close>\<close>

definition digit_char :: "nat \<Rightarrow> char" where
  "digit_char d = ''0123456789'' ! d"

function str_nat :: "nat \<Rightarrow> string" where
  "str_nat n = (if n < 10 then [digit_char n] else str_nat (n div 10) @ [digit_char (n mod 10)])"
  by pat_completeness auto
termination
  by (relation "measure id") auto

declare str_nat.simps [simp del]

definition str_int :: "int \<Rightarrow> string" where
  "str_int i = (if i < 0 then CHR ''-'' # str_nat (nat (- i)) else str_nat (nat i))"

fun str_atom :: "atom \<Rightarrow> string" where
  "str_atom ANone = ''None''"
| "str_atom (ABool b) = (if b then ''True'' else ''False'')"
| "str_atom (AInt i) = str_int i"
| "str_atom (AFloat s) = s"
| "str_atom (AStr s) = s"

subsection \<open>String methods\<close>

text \<open>\<^verbatim>\<open>sep.join(xs)\<close>\<close>

fun join :: "string \<Rightarrow> string list \<Rightarrow> string" where
  "join sep [] = []"
| "join sep [x] = x"
| "join sep (x # y # ys) = x @ sep @ join sep (y # ys)"

text \<open>\<^verbatim>\<open>s.replace(c, r)\<close> for a single character \<^verbatim>\<open>c\<close>\<close>

fun replace :: "char \<Rightarrow> string \<Rightarrow> string \<Rightarrow> string" where
  "replace c r [] = []"
| "replace c r (x # xs) = (if x = c then r @ replace c r xs else x # replace c r xs)"

text \<open>\<^verbatim>\<open>s.split(sep)\<close> for a single character \<^verbatim>\<open>sep\<close>: never an empty list.\<close>

fun split :: "char \<Rightarrow> string \<Rightarrow> string list" where
  "split sep [] = [[]]"
| "split sep (c # cs) =
     (if c = sep then [] # split sep cs
      else (case split sep cs of [] \<Rightarrow> [[c]] | w # ws \<Rightarrow> (c # w) # ws))"

section \<open>The serializer: \<^verbatim>\<open>lua_formatter\<close>\<close>

text \<open>
  One element of a sequence value (source lines 74 to 76):
  \<^verbatim>\<open>k = '%s' if isinstance(v, int) else '"%s"'\<close>, then \<^verbatim>\<open>k % v\<close>.
\<close>

definition lua_element :: "atom \<Rightarrow> string" where
  "lua_element v = (if is_int v then str_atom v else [dq] @ str_atom v @ [dq])"

text \<open>
  One item of a record (source lines 70 to 81). The last branch calls
  \<^verbatim>\<open>value.replace\<close>, which \<^verbatim>\<open>None\<close> does not have.
\<close>

fun lua_entry :: "string \<Rightarrow> pyval \<Rightarrow> err + string" where
  "lua_entry key (Atom a) =
     (if is_int a \<or> is_float a then Inr ([tab, tab] @ key @ ''='' @ str_atom a @ [CHR '','', nl])
      else (case a of
              AStr s \<Rightarrow> Inr ([tab, tab] @ key @ ''='' @ [dq] @ replace dq [bs, dq] s @ [dq] @ [CHR '','', nl])
            | _ \<Rightarrow> Inl AttributeError))"
| "lua_entry key (Seq vs) =
     Inr ([tab, tab] @ key @ ''={'' @ join '', '' (map lua_element vs) @ ''},'' @ [nl])"

text \<open>The inner loop over \<^verbatim>\<open>data.items()\<close>: the first failing item raises.\<close>

fun lua_items :: "odict \<Rightarrow> err + string" where
  "lua_items [] = Inr []"
| "lua_items ((k, v) # kvs) =
     (case lua_entry k v of
        Inl e \<Rightarrow> Inl e
      | Inr s \<Rightarrow> (case lua_items kvs of Inl e \<Rightarrow> Inl e | Inr rest \<Rightarrow> Inr (s @ rest)))"

text \<open>The outer loop over \<^verbatim>\<open>outdata\<close>.\<close>

fun lua_blocks :: "odict list \<Rightarrow> err + string" where
  "lua_blocks [] = Inr []"
| "lua_blocks (d # ds) =
     (case lua_items d of
        Inl e \<Rightarrow> Inl e
      | Inr s \<Rightarrow> (case lua_blocks ds of
                   Inl e \<Rightarrow> Inl e
                 | Inr rest \<Rightarrow> Inr ([tab] @ ''{'' @ [nl] @ s @ [tab] @ ''},'' @ [nl] @ rest)))"

definition lua_formatter :: "odict list \<Rightarrow> err + string" where
  "lua_formatter outdata =
     (case lua_blocks outdata of
        Inl e \<Rightarrow> Inl e
      | Inr body \<Rightarrow> Inr (''local data = {'' @ [nl] @ body @ [nl] @ ''}'' @ [nl] @ ''return data''))"

section \<open>Ordered dictionaries\<close>

text \<open>\<^verbatim>\<open>k in d\<close> and \<^verbatim>\<open>d[k]\<close> are \<^term>\<open>map_of d k\<close>; a missing key raises \<^verbatim>\<open>KeyError\<close>.\<close>

text \<open>\<^verbatim>\<open>d[k] = v\<close>: a key already present keeps its place, a new key goes last.\<close>

fun setitem :: "('k \<times> 'v) list \<Rightarrow> 'k \<Rightarrow> 'v \<Rightarrow> ('k \<times> 'v) list" where
  "setitem [] k v = [(k, v)]"
| "setitem ((k', v') # d) k v = (if k' = k then (k, v) # d else (k', v') # setitem d k v)"

text \<open>\<^verbatim>\<open>del d[k]\<close> for a key that is present: the item of that key goes.\<close>

definition delitem :: "('k \<times> 'v) list \<Rightarrow> 'k \<Rightarrow> ('k \<times> 'v) list" where
  "delitem d k = filter (\<lambda>kv. fst kv \<noteq> k) d"

text \<open>\<^verbatim>\<open>d.update(c)\<close>: the items of \<^verbatim>\<open>c\<close> are stored into \<^verbatim>\<open>d\<close> in order.\<close>

fun dict_update :: "odict \<Rightarrow> odict \<Rightarrow> odict" where
  "dict_update d [] = d"
| "dict_update d ((k, v) # c) = dict_update (setitem d k v) c"

section \<open>The projection engine: \<^verbatim>\<open>GenericLuaParser._copy_from_keys\<close>\<close>

text \<open>
  A field spec is a pair \<^verbatim>\<open>(k, copy_data)\<close> of a source field name and a dictionary with
  the output key under \<^verbatim>\<open>'key'\<close> and, optionally, a transform under \<^verbatim>\<open>'value'\<close>.
  A transform is any Python callable: it may raise. A source row is a mapping from field
  names to values; reading a field the row does not have raises.
\<close>

record copy_data =
  cd_key :: string
  cd_value :: "(pyval \<Rightarrow> err + pyval) option"

type_synonym field_spec = "string \<times> copy_data"

type_synonym source_row = "string \<rightharpoonup> pyval"

text \<open>
  The loop of source lines 97 to 103, with the \<^verbatim>\<open>copyrow\<close> built so far as
  accumulator: \<^verbatim>\<open>value is not None and value != ""\<close> guards the copy.
\<close>

fun copy_loop :: "source_row \<Rightarrow> field_spec list \<Rightarrow> odict \<Rightarrow> err + odict" where
  "copy_loop row [] copyrow = Inr copyrow"
| "copy_loop row ((k, cd) # keys) copyrow =
     (case row k of
        None \<Rightarrow> Inl KeyError
      | Some v \<Rightarrow>
          if v \<noteq> Atom ANone \<and> v \<noteq> Atom (AStr [])
          then (case cd_value cd of
                  None \<Rightarrow> copy_loop row keys (setitem copyrow (cd_key cd) v)
                | Some f \<Rightarrow> (case f v of
                              Inl e \<Rightarrow> Inl e
                            | Inr v' \<Rightarrow> copy_loop row keys (setitem copyrow (cd_key cd) v')))
          else copy_loop row keys copyrow)"

text \<open>
  \<^verbatim>\<open>out_data[index]\<close>: a negative index counts from the end, an index out of range
  raises \<^verbatim>\<open>IndexError\<close> (here \<^term>\<open>None\<close>).
\<close>

definition py_index :: "nat \<Rightarrow> int \<Rightarrow> nat option" where
  "py_index n i =
     (let j = (if i < 0 then int n + i else i)
      in if 0 \<le> j \<and> j < int n then Some (nat j) else None)"

text \<open>
  The whole method (source lines 95 to 111). The list \<^verbatim>\<open>out_data\<close> is mutated in place
  by the source and returned updated here; an exception leaves it as it was.
\<close>

definition copy_from_keys ::
  "source_row \<Rightarrow> field_spec list \<Rightarrow> odict list \<Rightarrow> int option \<Rightarrow> err + odict list" where
  "copy_from_keys row keys out_data index =
     (case copy_loop row keys [] of
        Inl e \<Rightarrow> Inl e
      | Inr copyrow \<Rightarrow>
          (case index of
             None \<Rightarrow> Inr (out_data @ [copyrow])
           | Some i \<Rightarrow>
               (case py_index (length out_data) i of
                  None \<Rightarrow> Inr (out_data @ [copyrow])
                | Some j \<Rightarrow> Inr (out_data[j := dict_update (out_data ! j) copyrow]))))"

text \<open>
  A transform that the repository declares (source lines 779 to 782, the \<^verbatim>\<open>TagsKeys\<close>
  spec of \<^verbatim>\<open>MonsterParser\<close>): \<^verbatim>\<open>lambda v: ', '.join([r['Id'] for r in v])\<close>.
  The values of this model hold numbers and strings, no rows: subscripting one of them
  with \<^verbatim>\<open>'Id'\<close> raises \<^verbatim>\<open>TypeError\<close>, and so does iterating a number or
  \<^verbatim>\<open>None\<close>. The empty sequence and the empty string give the join of no strings.
\<close>

fun tags_value :: "pyval \<Rightarrow> err + pyval" where
  "tags_value (Seq []) = Inr (Atom (AStr (join '', '' [])))"
| "tags_value (Seq (r # rs)) = Inl TypeError"
| "tags_value (Atom (AStr [])) = Inr (Atom (AStr (join '', '' [])))"
| "tags_value (Atom a) = Inl TypeError"

text \<open>
  For the proofs: what one field spec stores under its output key when the loop reaches
  it, \<^term>\<open>None\<close> for a skipped value.
\<close>

definition stored :: "source_row \<Rightarrow> field_spec \<Rightarrow> pyval option" where
  "stored row s =
     (case row (fst s) of
        None \<Rightarrow> None
      | Some v \<Rightarrow>
          if v \<noteq> Atom ANone \<and> v \<noteq> Atom (AStr [])
          then (case cd_value (snd s) of
                  None \<Rightarrow> Some v
                | Some f \<Rightarrow> (case f v of Inl e \<Rightarrow> None | Inr v' \<Rightarrow> Some v'))
          else None)"

section \<open>The serialized form as the specification words it\<close>

text \<open>
  A quoted string literal: every double quote of the text is preceded by a backslash,
  every other character stands for itself.
\<close>

definition spec_quoted :: "string \<Rightarrow> string" where
  "spec_quoted s = [dq] @ concat (map (\<lambda>c. if c = dq then [bs, c] else [c]) s) @ [dq]"

text \<open>
  The literal of a value: a number unquoted, a sequence as a bracketed list of its
  elements' texts joined by comma and space, anything else as a quoted string.
\<close>

fun spec_literal :: "pyval \<Rightarrow> string" where
  "spec_literal (Atom a) = (if is_int a \<or> is_float a then str_atom a else spec_quoted (str_atom a))"
| "spec_literal (Seq vs) = ''{'' @ join '', '' (map str_atom vs) @ ''}''"

text \<open>One block per record, one entry per key in the record's order.\<close>

definition spec_block :: "odict \<Rightarrow> string" where
  "spec_block d =
     [tab] @ ''{'' @ [nl]
     @ concat (map (\<lambda>(k, v). [tab, tab] @ k @ ''='' @ spec_literal v @ '','' @ [nl]) d)
     @ [tab] @ ''},'' @ [nl]"

definition spec_text :: "odict list \<Rightarrow> string" where
  "spec_text outdata =
     ''local data = {'' @ [nl] @ concat (map spec_block outdata) @ [nl] @ ''}'' @ [nl] @ ''return data''"

text \<open>The values of claim C4: an integer, a float, a string, a list of integers.\<close>

fun plain :: "pyval \<Rightarrow> bool" where
  "plain (Atom (AInt i)) = True"
| "plain (Atom (AFloat s)) = True"
| "plain (Atom (AStr s)) = True"
| "plain (Atom _) = False"
| "plain (Seq vs) = list_all (\<lambda>v. case v of AInt i \<Rightarrow> True | _ \<Rightarrow> False) vs"

section \<open>Deterministic ordering: \<^verbatim>\<open>QuestRewardReader._write_lua\<close>\<close>

text \<open>
  \<^verbatim>\<open>outdata.sort(key=lambda x: x[field])\<close>. The keys of all records are taken first, so a
  record without the field raises \<^verbatim>\<open>KeyError\<close> before anything is compared. The sort is
  stable. Python compares integers (booleans among them) with integers and strings with
  strings, by code point, a proper prefix first; between an integer, a string and
  \<^verbatim>\<open>None\<close> the comparison raises \<^verbatim>\<open>TypeError\<close>, which a list of two or more records
  cannot avoid. Floats and sequences as sort keys are outside this model
  (\<^term>\<open>NotModelled\<close>): the three sort fields of the source are \<^verbatim>\<open>Quest.dat\<close>'s
  \<^verbatim>\<open>Act\<close>, an integer, its \<^verbatim>\<open>Id\<close> and the name of an item, both strings.
\<close>

fun int_key :: "pyval \<Rightarrow> int option" where
  "int_key (Atom (AInt i)) = Some i"
| "int_key (Atom (ABool b)) = Some (if b then 1 else 0)"
| "int_key _ = None"

fun str_key :: "pyval \<Rightarrow> string option" where
  "str_key (Atom (AStr s)) = Some s"
| "str_key _ = None"

fun modelled_key :: "pyval \<Rightarrow> bool" where
  "modelled_key (Atom (AFloat s)) = False"
| "modelled_key (Seq vs) = False"
| "modelled_key _ = True"

definition int_field :: "string \<Rightarrow> odict \<Rightarrow> int option" where
  "int_field field x = (case map_of x field of None \<Rightarrow> None | Some v \<Rightarrow> int_key v)"

definition str_field :: "string \<Rightarrow> odict \<Rightarrow> string option" where
  "str_field field x = (case map_of x field of None \<Rightarrow> None | Some v \<Rightarrow> str_key v)"

definition sort_by_field :: "string \<Rightarrow> odict list \<Rightarrow> err + odict list" where
  "sort_by_field field outdata =
     (if list_ex (\<lambda>x. map_of x field = None) outdata then Inl KeyError
      else if length outdata \<le> 1 then Inr outdata
      else if list_all (\<lambda>x. int_field field x \<noteq> None) outdata
        then Inr (sort_key (\<lambda>x. the (int_field field x)) outdata)
      else if list_all (\<lambda>x. str_field field x \<noteq> None) outdata
        then Inr (sort_key (\<lambda>x. the (str_field field x)) outdata)
      else if list_all (\<lambda>x. case map_of x field of None \<Rightarrow> False | Some v \<Rightarrow> modelled_key v) outdata
        then Inl TypeError
      else Inl NotModelled)"

text \<open>The pre-sort of source lines 466 to 469.\<close>

definition pre_sort :: "odict list \<Rightarrow> err + odict list" where
  "pre_sort outdata =
     (case sort_by_field ''reward'' outdata of
        Inl e \<Rightarrow> Inl e
      | Inr by_reward \<Rightarrow>
          (case sort_by_field ''quest_id'' by_reward of
             Inl e \<Rightarrow> Inl e
           | Inr by_quest \<Rightarrow> sort_by_field ''act'' by_quest))"

text \<open>
  \<^verbatim>\<open>_write_lua\<close>: the sorted records are serialized; the result carries the text, the
  output file name and the wiki page.
\<close>

definition write_lua :: "odict list \<Rightarrow> string \<Rightarrow> err + (string \<times> string \<times> string)" where
  "write_lua outdata data_type =
     (case pre_sort outdata of
        Inl e \<Rightarrow> Inl e
      | Inr sorted_data \<Rightarrow>
          (case lua_formatter sorted_data of
             Inl e \<Rightarrow> Inl e
           | Inr txt \<Rightarrow> Inr (txt, data_type @ ''_rewards.txt'', ''Module:Quest reward/data/'' @ data_type)))"

text \<open>
  The sort key of claim C3: the triple (act, quest_id, reward) of a record that has an
  integer under \<^verbatim>\<open>act\<close> and strings under \<^verbatim>\<open>quest_id\<close> and \<^verbatim>\<open>reward\<close>. Triples are
  ordered lexicographically.
\<close>

definition sort_triple :: "odict \<Rightarrow> (int \<times> string \<times> string) option" where
  "sort_triple x =
     (case (map_of x ''act'', map_of x ''quest_id'', map_of x ''reward'') of
        (Some (Atom (AInt a)), Some (Atom (AStr q)), Some (Atom (AStr r))) \<Rightarrow> Some (a, q, r)
      | _ \<Rightarrow> None)"

section \<open>The merge step\<close>

text \<open>\<^verbatim>\<open>QuestRewardReader._UNIT_SEP\<close>, the character U+001F.\<close>

abbreviation unit_sep :: char where "unit_sep \<equiv> CHR 0x1F"

text \<open>
  \<^verbatim>\<open>compress\<close>: the dictionary from identity key to the representative record, in
  insertion order.
\<close>

type_synonym compress = "(string \<times> odict) list"

text \<open>
  \<^verbatim>\<open>old + (_UNIT_SEP + new)\<close> for a string \<^verbatim>\<open>new\<close>. A string is extended; \<^verbatim>\<open>None\<close> and
  numbers raise \<^verbatim>\<open>TypeError\<close>. The source never stores a sequence under
  \<^verbatim>\<open>classes\<close>; what \<^verbatim>\<open>+=\<close> would do to one is outside this model.
\<close>

fun concat_classes :: "pyval \<Rightarrow> string \<Rightarrow> err + pyval" where
  "concat_classes (Atom (AStr old)) new = Inr (Atom (AStr (old @ [unit_sep] @ new)))"
| "concat_classes (Atom a) new = Inl TypeError"
| "concat_classes (Seq vs) new = Inl NotModelled"

text \<open>
  The merge step of \<^verbatim>\<open>read_quest_rewards\<close> (source lines 564 to 568), for the identity
  key \<^verbatim>\<open>key\<close>, the record \<^verbatim>\<open>data\<close> built from the row and the row's
  \<^verbatim>\<open>CharactersKey\<close>, given by the character's name or \<^term>\<open>None\<close>:
  \<^verbatim>\<open>compress[key]['classes'] += self._UNIT_SEP + character['Name']\<close>.
  The augmented assignment reads \<^verbatim>\<open>compress[key]['classes']\<close> first, then evaluates the
  right-hand side, where subscripting \<^verbatim>\<open>None\<close> raises \<^verbatim>\<open>TypeError\<close>.
\<close>

definition quest_merge :: "compress \<Rightarrow> string \<Rightarrow> odict \<Rightarrow> string option \<Rightarrow> err + compress" where
  "quest_merge compress key data character =
     (case map_of compress key of
        Some rep \<Rightarrow>
          (case map_of rep ''classes'' of
             None \<Rightarrow> Inl KeyError
           | Some old \<Rightarrow>
               (case character of
                  None \<Rightarrow> Inl TypeError
                | Some name \<Rightarrow>
                    (case concat_classes old name of
                       Inl e \<Rightarrow> Inl e
                     | Inr v \<Rightarrow> Inr (setitem compress key (setitem rep ''classes'' v)))))
      | None \<Rightarrow> Inr (setitem compress key data))"

text \<open>
  The merge step of \<^verbatim>\<open>read_vendor_rewards\<close> (source lines 631 to 637): here the append
  is guarded by \<^verbatim>\<open>if 'classes' in data\<close>.
\<close>

definition vendor_merge :: "compress \<Rightarrow> string \<Rightarrow> odict \<Rightarrow> err + compress" where
  "vendor_merge compress key data =
     (case map_of compress key of
        Some rep \<Rightarrow>
          (case map_of data ''classes'' of
             Some new \<Rightarrow>
               (case map_of rep ''classes'' of
                  None \<Rightarrow> Inl KeyError
                | Some old \<Rightarrow>
                    (case new of
                       Atom (AStr n) \<Rightarrow>
                         (case concat_classes old n of
                            Inl e \<Rightarrow> Inl e
                          | Inr v \<Rightarrow> Inr (setitem compress key (setitem rep ''classes'' v)))
                     | _ \<Rightarrow> Inl TypeError))
           | None \<Rightarrow> Inr compress)
      | None \<Rightarrow> Inr (setitem compress key data))"

section \<open>The vendor-reward export: \<^verbatim>\<open>QuestRewardReader.read_vendor_rewards\<close>\<close>

text \<open>
  The tables come from the record repository, which is not part of this file: they are
  parameters. A row is modelled by the fields the function reads. A reference field holds
  the row it resolves to, or \<^term>\<open>None\<close> when it does not resolve; a field that lists
  references holds one such entry for each of them. The function never tests a reference
  before it subscripts it.
\<close>

record quest_row =
  q_Name :: string
  q_Id :: string
  q_Act :: int

record item_row =
  i_Name :: string
  i_Id :: string

record npc_row =
  n_Name :: string

record character_row =
  c_Name :: string

record quest_state_row =
  QuestStates :: "int list"
  QuestKey :: "quest_row option"

record vendor_row =
  rowid :: nat
  QuestState :: int
  NPCKey :: "npc_row option"
  BaseItemTypesKeys :: "item_row option list"
  CharactersKeys :: "character_row option list"

text \<open>
  \<^verbatim>\<open>ref['Name']\<close> and the like, for a reference: \<^verbatim>\<open>None\<close> is not subscriptable and
  raises \<^verbatim>\<open>TypeError\<close>.
\<close>

definition subscript :: "'a option \<Rightarrow> ('a \<Rightarrow> 'b) \<Rightarrow> err + 'b" where
  "subscript ref field = (case ref of None \<Rightarrow> Inl TypeError | Some r \<Rightarrow> Inr (field r))"

text \<open>The comprehension \<^verbatim>\<open>[ref['Name'] for ref in refs]\<close>.\<close>

fun subscript_each :: "'a option list \<Rightarrow> ('a \<Rightarrow> 'b) \<Rightarrow> err + 'b list" where
  "subscript_each [] field = Inr []"
| "subscript_each (ref # refs) field =
     (case subscript ref field of
        Inl e \<Rightarrow> Inl e
      | Inr x \<Rightarrow> (case subscript_each refs field of
                   Inl e \<Rightarrow> Inl e
                 | Inr xs \<Rightarrow> Inr (x # xs)))"

text \<open>
  The two warnings of the function, by what their messages report: the row, and for a row
  without quest also the state, the name of the NPC and the names of the items.
\<close>

datatype warning = NoQuest nat int string "string list" | NoItems nat

text \<open>The scan of \<^verbatim>\<open>QuestStates.dat\<close> (source lines 581 to 585).\<close>

definition find_quests :: "quest_state_row list \<Rightarrow> int \<Rightarrow> quest_row option list" where
  "find_quests quest_states quest_state_key =
     map QuestKey (filter (\<lambda>r. quest_state_key \<in> set (QuestStates r)) quest_states)"

text \<open>
  The fallback for the state 385 (source lines 587 to 589). \<^verbatim>\<open>quest_index\<close> is
  \<^verbatim>\<open>self.rr['Quest.dat'].index['Id']\<close>, the rows of \<^verbatim>\<open>Quest.dat\<close> by their
  \<^verbatim>\<open>Id\<close>: asking it for an identifier no row has raises \<^verbatim>\<open>KeyError\<close>.
\<close>

definition fallback ::
  "(string \<rightharpoonup> quest_row) \<Rightarrow> int \<Rightarrow> quest_row option list \<Rightarrow> err + quest_row option list" where
  "fallback quest_index quest_state_key quests =
     (if quests = [] \<and> quest_state_key = 385
      then (case quest_index ''a6q4'' of
              None \<Rightarrow> Inl KeyError
            | Some quest \<Rightarrow> Inr (quests @ [Some quest]))
      else Inr quests)"

text \<open>
  The warning for a row without quest (source lines 591 to 603): its message is formatted
  from \<^verbatim>\<open>row['NPCKey']['Name']\<close> and
  \<^verbatim>\<open>[i['Name'] for i in row['BaseItemTypesKeys']]\<close>, before anything is reported.
\<close>

definition no_quest_warning :: "vendor_row \<Rightarrow> err + warning" where
  "no_quest_warning row =
     (case subscript (NPCKey row) n_Name of
        Inl e \<Rightarrow> Inl e
      | Inr npc \<Rightarrow>
          (case subscript_each (BaseItemTypesKeys row) i_Name of
             Inl e \<Rightarrow> Inl e
           | Inr items \<Rightarrow> Inr (NoQuest (rowid row) (QuestState row) npc items)))"

text \<open>
  The record of one quest and one item of a row (source lines 617 to 629), and its identity
  key (source line 631).
\<close>

definition vendor_data :: "quest_row option \<Rightarrow> item_row option \<Rightarrow> vendor_row \<Rightarrow> err + odict" where
  "vendor_data quest item row =
     (case quest of
        None \<Rightarrow> Inl TypeError
      | Some q \<Rightarrow>
          (case item of
             None \<Rightarrow> Inl TypeError
           | Some i \<Rightarrow>
               (case NPCKey row of
                  None \<Rightarrow> Inl TypeError
                | Some npc \<Rightarrow>
                    (let data = [(''quest'', Atom (AStr (q_Name q))),
                                 (''quest_id'', Atom (AStr (q_Id q))),
                                 (''act'', Atom (AInt (q_Act q))),
                                 (''reward'', Atom (AStr (i_Name i))),
                                 (''npc'', Atom (AStr (n_Name npc)))]
                     in if CharactersKeys row \<noteq> []
                        then (case subscript_each (CharactersKeys row) c_Name of
                                Inl e \<Rightarrow> Inl e
                              | Inr classes \<Rightarrow>
                                  Inr (data @ [(''classes'', Atom (AStr (join [unit_sep] classes)))]))
                        else Inr data))))"

definition vendor_key :: "quest_row option \<Rightarrow> item_row option \<Rightarrow> err + string" where
  "vendor_key quest item =
     (case quest of
        None \<Rightarrow> Inl TypeError
      | Some q \<Rightarrow> (case item of None \<Rightarrow> Inl TypeError | Some i \<Rightarrow> Inr (q_Id q @ i_Id i)))"

text \<open>The loop over the items of a row, for one quest, and the loop over its quests.\<close>

fun vendor_items ::
  "vendor_row \<Rightarrow> quest_row option \<Rightarrow> item_row option list \<Rightarrow> compress \<Rightarrow> err + compress" where
  "vendor_items row quest [] compress = Inr compress"
| "vendor_items row quest (item # items) compress =
     (case vendor_data quest item row of
        Inl e \<Rightarrow> Inl e
      | Inr data \<Rightarrow>
          (case vendor_key quest item of
             Inl e \<Rightarrow> Inl e
           | Inr key \<Rightarrow>
               (case vendor_merge compress key data of
                  Inl e \<Rightarrow> Inl e
                | Inr compress' \<Rightarrow> vendor_items row quest items compress')))"

fun vendor_quests :: "vendor_row \<Rightarrow> quest_row option list \<Rightarrow> compress \<Rightarrow> err + compress" where
  "vendor_quests row [] compress = Inr compress"
| "vendor_quests row (quest # quests) compress =
     (case vendor_items row quest (BaseItemTypesKeys row) compress of
        Inl e \<Rightarrow> Inl e
      | Inr compress' \<Rightarrow> vendor_quests row quests compress')"

text \<open>
  The body of the loop over \<^verbatim>\<open>QuestVendorRewards.dat\<close> for one row (source lines 577
  to 637). The state is \<^verbatim>\<open>compress\<close> and the warnings issued so far;
  \<^verbatim>\<open>warnings.warn\<close> records its message and returns.
\<close>

definition vendor_row_step ::
  "quest_state_row list \<Rightarrow> (string \<rightharpoonup> quest_row) \<Rightarrow> vendor_row \<Rightarrow> compress \<times> warning list
     \<Rightarrow> err + compress \<times> warning list" where
  "vendor_row_step quest_states quest_index row st =
     (case fallback quest_index (QuestState row) (find_quests quest_states (QuestState row)) of
        Inl e \<Rightarrow> Inl e
      | Inr quests \<Rightarrow>
          if quests = []
          then (case no_quest_warning row of
                  Inl e \<Rightarrow> Inl e
                | Inr w \<Rightarrow> Inr (fst st, snd st @ [w]))
          else if BaseItemTypesKeys row = []
          then Inr (fst st, snd st @ [NoItems (rowid row)])
          else (case vendor_quests row quests (fst st) of
                  Inl e \<Rightarrow> Inl e
                | Inr compress' \<Rightarrow> Inr (compress', snd st)))"

fun vendor_rows ::
  "quest_state_row list \<Rightarrow> (string \<rightharpoonup> quest_row) \<Rightarrow> vendor_row list \<Rightarrow> compress \<times> warning list
     \<Rightarrow> err + compress \<times> warning list" where
  "vendor_rows quest_states quest_index [] st = Inr st"
| "vendor_rows quest_states quest_index (row # rows) st =
     (case vendor_row_step quest_states quest_index row st of
        Inl e \<Rightarrow> Inl e
      | Inr st' \<Rightarrow> vendor_rows quest_states quest_index rows st')"

text \<open>
  The post-processing of one record (source lines 642 to 648), with the names of
  \<^verbatim>\<open>Characters.dat\<close> as \<^verbatim>\<open>classes_set\<close>:
  \<^verbatim>\<open>len(classes_set.difference(classes)) == 0\<close> holds when every known name is among the
  split values. A value that is no string has no \<^verbatim>\<open>split\<close>.
\<close>

definition prune_classes :: "string list \<Rightarrow> odict \<Rightarrow> err + odict" where
  "prune_classes classes_set v =
     (case map_of v ''classes'' of
        None \<Rightarrow> Inr v
      | Some (Atom (AStr s)) \<Rightarrow>
          (let classes = split unit_sep s
           in if list_all (\<lambda>n. n \<in> set classes) classes_set
              then Inr (delitem v ''classes'')
              else Inr (setitem v ''classes''
                          (Atom (AStr (join [unit_sep] (sort (remdups classes)))))))
      | Some _ \<Rightarrow> Inl AttributeError)"

fun postprocess :: "string list \<Rightarrow> compress \<Rightarrow> err + compress" where
  "postprocess classes_set [] = Inr []"
| "postprocess classes_set ((k, v) # kvs) =
     (case prune_classes classes_set v of
        Inl e \<Rightarrow> Inl e
      | Inr v' \<Rightarrow> (case postprocess classes_set kvs of
                    Inl e \<Rightarrow> Inl e
                  | Inr kvs' \<Rightarrow> Inr ((k, v') # kvs')))"

text \<open>
  The whole function: the text and its destination, and the warnings.
  \<^verbatim>\<open>classes_set\<close> is \<^verbatim>\<open>{row['Name'] for row in self.rr['Characters.dat']}\<close>.
\<close>

definition read_vendor_rewards ::
  "vendor_row list \<Rightarrow> quest_state_row list \<Rightarrow> (string \<rightharpoonup> quest_row) \<Rightarrow> character_row list
     \<Rightarrow> err + (string \<times> string \<times> string) \<times> warning list" where
  "read_vendor_rewards vendor_rewards quest_states quest_index characters =
     (case vendor_rows quest_states quest_index vendor_rewards ([], []) of
        Inl e \<Rightarrow> Inl e
      | Inr (compress, warnings) \<Rightarrow>
          (case postprocess (map c_Name characters) compress of
             Inl e \<Rightarrow> Inl e
           | Inr compress' \<Rightarrow>
               (case write_lua (map snd compress') ''vendor'' of
                  Inl e \<Rightarrow> Inl e
                | Inr result \<Rightarrow> Inr (result, warnings))))"

text \<open>
  The rows claim C8 speaks of: no row of \<^verbatim>\<open>QuestStates.dat\<close> lists the quest state and
  the state is not 385, or the item list is empty.
\<close>

definition lacks_key_inputs :: "quest_state_row list \<Rightarrow> vendor_row \<Rightarrow> bool" where
  "lacks_key_inputs quest_states row =
     (find_quests quest_states (QuestState row) = [] \<and> QuestState row \<noteq> 385
      \<or> BaseItemTypesKeys row = [])"

text \<open>
  What the function subscripts on the way to the warning of such a row: for a state that no
  row of \<^verbatim>\<open>QuestStates.dat\<close> lists, the index of \<^verbatim>\<open>Quest.dat\<close> at \<^verbatim>\<open>a6q4\<close> when
  the state is 385, and otherwise the NPC and every item of the row.
\<close>

definition warning_resolved ::
  "quest_state_row list \<Rightarrow> (string \<rightharpoonup> quest_row) \<Rightarrow> vendor_row \<Rightarrow> bool" where
  "warning_resolved quest_states quest_index row =
     (if find_quests quest_states (QuestState row) = []
      then (if QuestState row = 385 then quest_index ''a6q4'' \<noteq> None
            else NPCKey row \<noteq> None \<and> list_all (\<lambda>item. item \<noteq> None) (BaseItemTypesKeys row))
      else True)"

definition reported :: "quest_state_row list \<Rightarrow> (string \<rightharpoonup> quest_row) \<Rightarrow> vendor_row \<Rightarrow> bool" where
  "reported quest_states quest_index row =
     (lacks_key_inputs quest_states row \<and> warning_resolved quest_states quest_index row)"

text \<open>The warning such a row is reported with.\<close>

definition skip_warning :: "quest_state_row list \<Rightarrow> vendor_row \<Rightarrow> warning" where
  "skip_warning quest_states row =
     (if find_quests quest_states (QuestState row) = [] \<and> QuestState row \<noteq> 385
      then NoQuest (rowid row) (QuestState row) (n_Name (the (NPCKey row)))
             (map (\<lambda>item. i_Name (the item)) (BaseItemTypesKeys row))
      else NoItems (rowid row))"

text \<open>
  Referential integrity of a vendor row: each of its character references that resolves is
  a row of \<^verbatim>\<open>Characters.dat\<close>.
\<close>

definition characters_linked :: "character_row list \<Rightarrow> vendor_row \<Rightarrow> bool" where
  "characters_linked characters row =
     list_all (\<lambda>ref. case ref of None \<Rightarrow> True | Some ch \<Rightarrow> ch \<in> set characters)
       (CharactersKeys row)"

section \<open>Sample tables\<close>

text \<open>
  A small repository for the concrete checks: one quest reached from the states 10 and 11,
  the quest of the state 385 fallback, one item, three characters, and four vendor rows of
  which the second has a state no quest is known for and the third has no items. A fifth
  row, kept apart, has such a state too, and an NPC reference that does not resolve.
\<close>

definition sample_quest :: quest_row where
  "sample_quest = \<lparr>q_Name = ''Enemy at the Gate'', q_Id = ''a1q1'', q_Act = 1\<rparr>"

definition sample_fallback :: quest_row where
  "sample_fallback = \<lparr>q_Name = ''Fallen from Grace'', q_Id = ''a6q4'', q_Act = 6\<rparr>"

definition sample_index :: "string \<rightharpoonup> quest_row" where
  "sample_index = [''a1q1'' \<mapsto> sample_quest, ''a6q4'' \<mapsto> sample_fallback]"

definition sample_ring :: item_row where
  "sample_ring = \<lparr>i_Name = ''Two-Stone Ring'', i_Id = ''Ring12''\<rparr>"

definition sample_npc :: npc_row where
  "sample_npc = \<lparr>n_Name = ''Nessa''\<rparr>"

definition sample_characters :: "character_row list" where
  "sample_characters = [\<lparr>c_Name = ''Witch''\<rparr>, \<lparr>c_Name = ''Shadow''\<rparr>, \<lparr>c_Name = ''Ranger''\<rparr>]"

definition sample_states :: "quest_state_row list" where
  "sample_states = [\<lparr>QuestStates = [10, 11], QuestKey = Some sample_quest\<rparr>]"

definition sample_vendor_rows :: "vendor_row list" where
  "sample_vendor_rows =
     [\<lparr>rowid = 0, QuestState = 10, NPCKey = Some sample_npc,
       BaseItemTypesKeys = [Some sample_ring], CharactersKeys = [Some \<lparr>c_Name = ''Witch''\<rparr>]\<rparr>,
      \<lparr>rowid = 1, QuestState = 99, NPCKey = Some sample_npc,
       BaseItemTypesKeys = [Some sample_ring], CharactersKeys = [Some \<lparr>c_Name = ''Witch''\<rparr>]\<rparr>,
      \<lparr>rowid = 2, QuestState = 10, NPCKey = Some sample_npc,
       BaseItemTypesKeys = [], CharactersKeys = [Some \<lparr>c_Name = ''Witch''\<rparr>]\<rparr>,
      \<lparr>rowid = 3, QuestState = 10, NPCKey = Some sample_npc,
       BaseItemTypesKeys = [Some sample_ring], CharactersKeys = [Some \<lparr>c_Name = ''Shadow''\<rparr>]\<rparr>]"

definition sample_orphan :: vendor_row where
  "sample_orphan =
     \<lparr>rowid = 4, QuestState = 99, NPCKey = None,
      BaseItemTypesKeys = [Some sample_ring], CharactersKeys = []\<rparr>"

definition sample_merged :: odict where
  "sample_merged =
     [(''quest'', Atom (AStr ''Enemy at the Gate'')), (''quest_id'', Atom (AStr ''a1q1'')),
      (''act'', Atom (AInt 1)), (''reward'', Atom (AStr ''Two-Stone Ring'')),
      (''npc'', Atom (AStr ''Nessa'')),
      (''classes'', Atom (AStr (''Witch'' @ [unit_sep] @ ''Shadow'')))]"

text \<open>
  For the proofs: a record whose \<^verbatim>\<open>classes\<close> field, if it has one, is a string that
  splits into values that the given names split into.
\<close>

definition known_classes :: "string list \<Rightarrow> odict \<Rightarrow> bool" where
  "known_classes names v =
     (case map_of v ''classes'' of
        None \<Rightarrow> True
      | Some (Atom (AStr s)) \<Rightarrow>
          set (split unit_sep s) \<subseteq> (\<Union>n \<in> set names. set (split unit_sep n))
      | Some _ \<Rightarrow> False)"

section \<open>Facts about ordered dictionaries\<close>

lemma map_of_setitem: "map_of (setitem d k v) = (map_of d)(k \<mapsto> v)"
  by (induction d k v rule: setitem.induct) auto

lemma keys_setitem: "fst ` set (setitem d k v) = insert k (fst ` set d)"
  by (induction d k v rule: setitem.induct) auto

lemma distinct_setitem: "distinct (map fst d) \<Longrightarrow> distinct (map fst (setitem d k v))"
  by (induction d k v rule: setitem.induct) (auto simp: keys_setitem)

lemma map_of_dict_update:
  "distinct (map fst c) \<Longrightarrow>
   map_of (dict_update d c) K = (case map_of c K of Some v \<Rightarrow> Some v | None \<Rightarrow> map_of d K)"
proof (induction d c rule: dict_update.induct)
  case (1 d)
  then show ?case by simp
next
  case (2 d k v c)
  then have "map_of c k = None"
    by (simp add: map_of_eq_None_iff)
  with 2 show ?case
    by (auto simp: map_of_setitem split: option.splits)
qed


section \<open>The serializer\<close>

lemma replace_dq: "replace dq [bs, dq] s = concat (map (\<lambda>c. if c = dq then [bs, c] else [c]) s)"
  by (induction s) auto

lemma lua_element_int:
  "list_all (\<lambda>v. case v of AInt i \<Rightarrow> True | _ \<Rightarrow> False) vs \<Longrightarrow> map lua_element vs = map str_atom vs"
  by (induction vs) (auto simp: lua_element_def split: atom.splits)

lemma lua_entry_plain:
  "plain v \<Longrightarrow> lua_entry k v = Inr ([tab, tab] @ k @ ''='' @ spec_literal v @ '','' @ [nl])"
  by (cases v rule: plain.cases) (auto simp: spec_quoted_def replace_dq lua_element_int)

lemma lua_items_plain:
  "\<forall>(k, v) \<in> set d. plain v \<Longrightarrow>
   lua_items d = Inr (concat (map (\<lambda>(k, v). [tab, tab] @ k @ ''='' @ spec_literal v @ '','' @ [nl]) d))"
  by (induction d) (auto simp: lua_entry_plain)

lemma lua_blocks_plain:
  "\<forall>d \<in> set outdata. \<forall>(k, v) \<in> set d. plain v \<Longrightarrow>
   lua_blocks outdata = Inr (concat (map spec_block outdata))"
  by (induction outdata) (auto simp: lua_items_plain spec_block_def)

lemma lua_items_renders:
  "lua_items d = Inr str \<Longrightarrow> (k, v) \<in> set d \<Longrightarrow>
   \<exists>e pre post. lua_entry k v = Inr e \<and> str = pre @ e @ post"
proof (induction d arbitrary: str)
  case Nil
  then show ?case by simp
next
  case (Cons kv d)
  obtain k0 v0 where kv: "kv = (k0, v0)" by (cases kv)
  from Cons.prems(1) kv obtain e0 rest where e0: "lua_entry k0 v0 = Inr e0"
    and rest: "lua_items d = Inr rest" and str: "str = e0 @ rest"
    by (auto split: sum.splits)
  show ?case
  proof (cases "(k, v) = (k0, v0)")
    case True
    with e0 str have "lua_entry k v = Inr e0 \<and> str = [] @ e0 @ rest" by simp
    then show ?thesis by blast
  next
    case False
    with Cons.prems(2) kv have "(k, v) \<in> set d" by auto
    from Cons.IH[OF rest this] obtain e pre post
      where "lua_entry k v = Inr e" and "rest = pre @ e @ post" by blast
    with str have "lua_entry k v = Inr e \<and> str = (e0 @ pre) @ e @ post" by simp
    then show ?thesis by blast
  qed
qed

text \<open>
  Claim C4. For records whose values are integers, floats, strings and lists of integers,
  \<^verbatim>\<open>lua_formatter\<close> returns the text the specification describes: one block per record
  and, per key in the record's order, a number unquoted, a list as an inline bracketed
  list, a string in double quotes with each embedded double quote preceded by a backslash
  and no other character changed.
\<close>

theorem lua_formatter_plain_records:
  assumes "\<forall>d \<in> set outdata. \<forall>(k, v) \<in> set d. plain v"
  shows "lua_formatter outdata = Inr (spec_text outdata)"
  using lua_blocks_plain[OF assms] by (simp add: lua_formatter_def spec_text_def)

text \<open>
  The record \<^verbatim>\<open>{id: 5, name: 'a"b', tags: [1, 2, 3]}\<close> of the specification: its block
  holds \<^verbatim>\<open>id=5,\<close>, the name with its quote written backslash, quote, and
  \<^verbatim>\<open>tags={1, 2, 3},\<close>.
\<close>

theorem lua_formatter_plain_records_witness:
  "list_all (list_all (\<lambda>(k, v). plain v))
      [[(''id'', Atom (AInt 5)), (''name'', Atom (AStr [CHR ''a'', dq, CHR ''b''])),
        (''tags'', Seq [AInt 1, AInt 2, AInt 3])]]
   \<and> lua_formatter [[(''id'', Atom (AInt 5)), (''name'', Atom (AStr [CHR ''a'', dq, CHR ''b''])),
                      (''tags'', Seq [AInt 1, AInt 2, AInt 3])]]
     = Inr (''local data = {'' @ [nl, tab] @ ''{'' @ [nl, tab, tab] @ ''id=5,'' @ [nl, tab, tab]
            @ ''name='' @ [dq] @ ''a'' @ [bs, dq] @ ''b'' @ [dq] @ '','' @ [nl, tab, tab]
            @ ''tags={1, 2, 3},'' @ [nl, tab] @ ''},'' @ [nl, nl] @ ''}'' @ [nl] @ ''return data'')"
  using lua_formatter_plain_records
    [of "[[(''id'', Atom (AInt 5)), (''name'', Atom (AStr [CHR ''a'', dq, CHR ''b''])),
           (''tags'', Seq [AInt 1, AInt 2, AInt 3])]]"]
  by (simp add: spec_text_def spec_block_def spec_quoted_def str_int_def str_nat.simps digit_char_def)

text \<open>
  What the serializer does with a sequence, for every kind of element: integers and
  booleans unquoted, everything else, floats included, between double quotes with no
  character escaped, the elements joined by comma and space.
\<close>

lemma lua_entry_sequence:
  "lua_entry key (Seq vs) =
     Inr ([tab, tab] @ key @ ''={''
          @ join '', '' (map (\<lambda>v. case v of
                                   AInt i \<Rightarrow> str_int i
                                 | ABool b \<Rightarrow> (if b then ''True'' else ''False'')
                                 | _ \<Rightarrow> [dq] @ str_atom v @ [dq]) vs)
          @ ''},'' @ [nl])"
proof -
  have elems: "map lua_element vs = map (\<lambda>v. case v of
                                   AInt i \<Rightarrow> str_int i
                                 | ABool b \<Rightarrow> (if b then ''True'' else ''False'')
                                 | _ \<Rightarrow> [dq] @ str_atom v @ [dq]) vs"
    by (induction vs) (auto simp: lua_element_def split: atom.splits)
  show ?thesis by (simp only: lua_entry.simps elems)
qed

text \<open>
  Claim C7 at a list holding the float \<^verbatim>\<open>1.5\<close>: the element test of source line 75 is
  \<^verbatim>\<open>isinstance(v, int)\<close>, so the float is written in double quotes, while the same
  float as a field value of its own passes \<^verbatim>\<open>isinstance(value, (int, float))\<close> of
  line 70 and is written unquoted.
\<close>

theorem lua_formatter_float_element_quoted:
  "lua_formatter [[(''k'', Seq [AInt 1, AFloat ''1.5''])]]
     = Inr (''local data = {'' @ [nl, tab] @ ''{'' @ [nl, tab, tab] @ ''k={1, '' @ [dq] @ ''1.5'' @ [dq]
            @ ''},'' @ [nl, tab] @ ''},'' @ [nl, nl] @ ''}'' @ [nl] @ ''return data'')
   \<and> lua_formatter [[(''k'', Atom (AFloat ''1.5''))]]
     = Inr (''local data = {'' @ [nl, tab] @ ''{'' @ [nl, tab, tab] @ ''k=1.5,'' @ [nl, tab]
            @ ''},'' @ [nl, nl] @ ''}'' @ [nl] @ ''return data'')"
  by (simp add: lua_formatter_def lua_element_def str_int_def str_nat.simps digit_char_def)

section \<open>Facts about the projection loop\<close>

lemma copy_loop_distinct:
  "copy_loop row keys acc = Inr c \<Longrightarrow> distinct (map fst acc) \<Longrightarrow> distinct (map fst c)"
  by (induction row keys acc rule: copy_loop.induct)
     (auto simp: distinct_setitem split: option.splits if_splits sum.splits)

lemma copy_loop_map_of:
  assumes "copy_loop row keys acc = Inr c"
    and "\<forall>s \<in> set keys. cd_key (snd s) = K \<longrightarrow> stored row s = w"
  shows "map_of c K = (if w \<noteq> None \<and> (\<exists>s \<in> set keys. cd_key (snd s) = K) then w else map_of acc K)"
  using assms
proof (induction row keys acc rule: copy_loop.induct)
  case (1 row copyrow)
  then show ?case by simp
next
  case (2 row k cd keys copyrow)
  from "2.prems"(1) obtain v where v: "row k = Some v"
    by (auto split: option.splits)
  show ?case
  proof (cases "v \<noteq> Atom ANone \<and> v \<noteq> Atom (AStr [])")
    case False
    with v "2.prems" have loop: "copy_loop row keys copyrow = Inr c"
      by auto
    from False v have "stored row (k, cd) = None"
      by (auto simp: stored_def)
    with "2.prems"(2) have "cd_key cd = K \<Longrightarrow> w = None"
      by auto
    moreover from "2.IH"(3)[OF v _ loop] False "2.prems"(2)
    have "map_of c K = (if w \<noteq> None \<and> (\<exists>s \<in> set keys. cd_key (snd s) = K) then w else map_of copyrow K)"
      by auto
    ultimately show ?thesis by auto
  next
    case True
    show ?thesis
    proof (cases "cd_value cd")
      case None
      with True v "2.prems" have loop: "copy_loop row keys (setitem copyrow (cd_key cd) v) = Inr c"
        by auto
      from None True v have st: "stored row (k, cd) = Some v"
        by (auto simp: stored_def)
      from "2.IH"(1)[OF v True None loop] "2.prems"(2)
      have "map_of c K = (if w \<noteq> None \<and> (\<exists>s \<in> set keys. cd_key (snd s) = K) then w
                          else map_of (setitem copyrow (cd_key cd) v) K)"
        by auto
      with st "2.prems"(2) show ?thesis
        by (auto simp: map_of_setitem)
    next
      case (Some f)
      with True v "2.prems"(1) obtain v' where fv: "f v = Inr v'"
        and loop: "copy_loop row keys (setitem copyrow (cd_key cd) v') = Inr c"
        by (auto split: sum.splits)
      from Some True v fv have st: "stored row (k, cd) = Some v'"
        by (auto simp: stored_def)
      from "2.IH"(2)[OF v True Some fv loop] "2.prems"(2)
      have "map_of c K = (if w \<noteq> None \<and> (\<exists>s \<in> set keys. cd_key (snd s) = K) then w
                          else map_of (setitem copyrow (cd_key cd) v') K)"
        by auto
      with st "2.prems"(2) show ?thesis
        by (auto simp: map_of_setitem)
    qed
  qed
qed

lemma copy_loop_reads:
  "copy_loop row keys acc = Inr c \<Longrightarrow> (k, cd) \<in> set keys \<Longrightarrow> \<exists>v. row k = Some v"
  by (induction row keys acc rule: copy_loop.induct)
     (auto split: option.splits if_splits sum.splits)

lemma copy_loop_keeps_keys:
  "copy_loop row keys acc = Inr c \<Longrightarrow> K \<in> fst ` set acc \<Longrightarrow> K \<in> fst ` set c"
  by (induction row keys acc rule: copy_loop.induct)
     (auto simp: keys_setitem split: option.splits if_splits sum.splits)

lemma copy_loop_writes_key:
  "copy_loop row keys acc = Inr c \<Longrightarrow> (k, cd) \<in> set keys \<Longrightarrow> row k = Some v \<Longrightarrow>
   v \<noteq> Atom ANone \<Longrightarrow> v \<noteq> Atom (AStr []) \<Longrightarrow> cd_key cd \<in> fst ` set c"
proof (induction row keys acc rule: copy_loop.induct)
  case (1 row copyrow)
  then show ?case by simp
next
  case (2 row k0 cd0 keys copyrow)
  show ?case
  proof (cases "(k, cd) = (k0, cd0)")
    case True
    with "2.prems" obtain w where "copy_loop row keys (setitem copyrow (cd_key cd) w) = Inr c"
      by (auto split: option.splits sum.splits)
    then show ?thesis
      by (rule copy_loop_keeps_keys) (simp add: keys_setitem)
  next
    case False
    with "2.prems"(2) have mem: "(k, cd) \<in> set keys" by auto
    from "2.prems"(1) obtain v0 where v0: "row k0 = Some v0"
      by (auto split: option.splits)
    show ?thesis
    proof (cases "v0 \<noteq> Atom ANone \<and> v0 \<noteq> Atom (AStr [])")
      case skip: False
      with v0 "2.prems"(1) have "copy_loop row keys copyrow = Inr c" by auto
      from "2.IH"(3)[OF v0 skip this mem "2.prems"(3,4,5)] show ?thesis .
    next
      case copy: True
      show ?thesis
      proof (cases "cd_value cd0")
        case None
        with copy v0 "2.prems"(1) have "copy_loop row keys (setitem copyrow (cd_key cd0) v0) = Inr c"
          by auto
        from "2.IH"(1)[OF v0 copy None this mem "2.prems"(3,4,5)] show ?thesis .
      next
        case (Some f)
        with copy v0 "2.prems"(1) obtain v' where fv: "f v0 = Inr v'"
          and loop: "copy_loop row keys (setitem copyrow (cd_key cd0) v') = Inr c"
          by (auto split: sum.splits)
        from "2.IH"(2)[OF v0 copy Some fv loop mem "2.prems"(3,4,5)] show ?thesis .
      qed
    qed
  qed
qed

lemma copy_loop_returns:
  "\<forall>(k, cd) \<in> set keys. \<exists>v. row k = Some v \<and>
      (v \<noteq> Atom ANone \<and> v \<noteq> Atom (AStr []) \<longrightarrow>
        (case cd_value cd of None \<Rightarrow> True | Some f \<Rightarrow> \<exists>v'. f v = Inr v'))
   \<Longrightarrow> \<exists>c. copy_loop row keys acc = Inr c"
  by (induction row keys acc rule: copy_loop.induct) (auto split: option.splits)

lemma copy_from_keys_returns:
  "\<forall>(k, cd) \<in> set keys. \<exists>v. row k = Some v \<and>
      (v \<noteq> Atom ANone \<and> v \<noteq> Atom (AStr []) \<longrightarrow>
        (case cd_value cd of None \<Rightarrow> True | Some f \<Rightarrow> \<exists>v'. f v = Inr v'))
   \<Longrightarrow> \<exists>out'. copy_from_keys row keys out_data index = Inr out'"
  using copy_loop_returns[of keys row "[]"]
  by (auto simp: copy_from_keys_def split: option.splits)

lemma copy_from_keys_None:
  "copy_from_keys row keys out_data None = Inr out' \<Longrightarrow>
   \<exists>copyrow. copy_loop row keys [] = Inr copyrow \<and> out' = out_data @ [copyrow]"
  by (auto simp: copy_from_keys_def split: sum.splits)

lemma copy_loop_stored:
  assumes "copy_loop row keys [] = Inr copyrow"
    and "(k, cd) \<in> set keys"
    and "\<forall>s \<in> set keys. cd_key (snd s) = cd_key cd \<longrightarrow> s = (k, cd)"
  shows "map_of copyrow (cd_key cd) = stored row (k, cd)"
proof -
  from assms(3) have same:
    "\<forall>s \<in> set keys. cd_key (snd s) = cd_key cd \<longrightarrow> stored row s = stored row (k, cd)"
    by auto
  from copy_loop_map_of[OF assms(1) same] assms(2) show ?thesis
    by (cases "stored row (k, cd)") force+
qed

text \<open>
  Claim C2, amended. Called without an index, \<^verbatim>\<open>_copy_from_keys\<close> appends the record
  it projects. For a field spec whose output key no other spec of the list writes: when
  the row's value at the source field is \<^verbatim>\<open>None\<close> or the empty string, that record
  has no entry for the output key; otherwise it binds the output key to the transform of
  the value when a transform is declared, and to the value itself when none is.
\<close>

theorem copy_from_keys_skip_rule:
  assumes "copy_from_keys row keys out_data None = Inr out'"
    and "(k, cd) \<in> set keys"
    and "\<forall>s \<in> set keys. cd_key (snd s) = cd_key cd \<longrightarrow> s = (k, cd)"
  shows "\<exists>v copyrow. row k = Some v \<and> out' = out_data @ [copyrow] \<and>
     (if v = Atom ANone \<or> v = Atom (AStr []) then map_of copyrow (cd_key cd) = None
      else (case cd_value cd of
              None \<Rightarrow> map_of copyrow (cd_key cd) = Some v
            | Some f \<Rightarrow> (\<exists>v'. f v = Inr v' \<and> map_of copyrow (cd_key cd) = Some v')))"
proof -
  from copy_from_keys_None[OF assms(1)] obtain copyrow
    where loop: "copy_loop row keys [] = Inr copyrow" and out: "out' = out_data @ [copyrow]"
    by blast
  from copy_loop_reads[OF loop assms(2)] obtain v where v: "row k = Some v"
    by blast
  from copy_loop_stored[OF loop assms(2,3)]
  have bound: "map_of copyrow (cd_key cd) = stored row (k, cd)" .
  have "if v = Atom ANone \<or> v = Atom (AStr []) then map_of copyrow (cd_key cd) = None
      else (case cd_value cd of
              None \<Rightarrow> map_of copyrow (cd_key cd) = Some v
            | Some f \<Rightarrow> (\<exists>v'. f v = Inr v' \<and> map_of copyrow (cd_key cd) = Some v'))"
  proof (cases "v = Atom ANone \<or> v = Atom (AStr [])")
    case True
    with v bound show ?thesis by (auto simp: stored_def)
  next
    case False
    show ?thesis
    proof (cases "cd_value cd")
      case None
      with False v bound show ?thesis by (auto simp: stored_def)
    next
      case (Some f)
      from copy_loop_writes_key[OF loop assms(2) v] False
      have "cd_key cd \<in> fst ` set copyrow" by auto
      then have "map_of copyrow (cd_key cd) \<noteq> None"
        by (simp add: map_of_eq_None_iff)
      with Some False v bound show ?thesis
        by (auto simp: stored_def split: sum.splits)
    qed
  qed
  with v out show ?thesis by blast
qed

text \<open>
  The amended rule at a row with an integer, an empty string and \<^verbatim>\<open>None\<close>, projected
  under three distinct output keys: only the integer is copied.
\<close>

theorem copy_from_keys_skip_rule_witness:
  "copy_from_keys [''A'' \<mapsto> Atom (AInt 7), ''B'' \<mapsto> Atom (AStr []), ''C'' \<mapsto> Atom ANone]
      [(''A'', \<lparr>cd_key = ''a'', cd_value = None\<rparr>), (''B'', \<lparr>cd_key = ''b'', cd_value = None\<rparr>),
       (''C'', \<lparr>cd_key = ''c'', cd_value = None\<rparr>)] [] None
     = Inr [[(''a'', Atom (AInt 7))]]
   \<and> (''B'', \<lparr>cd_key = ''b'', cd_value = None\<rparr>)
       \<in> set [(''A'', \<lparr>cd_key = ''a'', cd_value = None\<rparr>), (''B'', \<lparr>cd_key = ''b'', cd_value = None\<rparr>),
               (''C'', \<lparr>cd_key = ''c'', cd_value = None\<rparr>)]
   \<and> map_of [(''a'', Atom (AInt 7))] ''b'' = None"
  using copy_from_keys_skip_rule
    [of "[''A'' \<mapsto> Atom (AInt 7), ''B'' \<mapsto> Atom (AStr []), ''C'' \<mapsto> Atom ANone]"
        "[(''A'', \<lparr>cd_key = ''a'', cd_value = None\<rparr>), (''B'', \<lparr>cd_key = ''b'', cd_value = None\<rparr>),
          (''C'', \<lparr>cd_key = ''c'', cd_value = None\<rparr>)]"
        "[]" "[[(''a'', Atom (AInt 7))]]" "''B''" "\<lparr>cd_key = ''b'', cd_value = None\<rparr>"]
  by (simp add: copy_from_keys_def)

text \<open>
  Claim C2 as stated fails when two field specs share an output key: the second spec below
  reads \<^verbatim>\<open>None\<close>, yet the projected record has an entry for its output key, written by
  the first.
\<close>

theorem copy_from_keys_shared_key_counterexample:
  "copy_from_keys [''A'' \<mapsto> Atom (AInt 7), ''B'' \<mapsto> Atom ANone]
      [(''A'', \<lparr>cd_key = ''k'', cd_value = None\<rparr>), (''B'', \<lparr>cd_key = ''k'', cd_value = None\<rparr>)] [] None
     = Inr [[(''k'', Atom (AInt 7))]]
   \<and> [''A'' \<mapsto> Atom (AInt 7), ''B'' \<mapsto> Atom ANone] ''B'' = Some (Atom ANone)
   \<and> map_of [(''k'', Atom (AInt 7))] (cd_key \<lparr>cd_key = ''k'', cd_value = None\<rparr>) \<noteq> None"
  by (simp add: copy_from_keys_def)

text \<open>
  Claim C9. Called without a positional index, \<^verbatim>\<open>_copy_from_keys\<close> appends exactly one
  record, the one projected from the row: the output sequence is one longer and every
  record that was there before is still there, in place and unchanged.
\<close>

theorem copy_from_keys_appends:
  assumes "copy_from_keys row keys out_data None = Inr out'"
  shows "length out' = length out_data + 1 \<and> take (length out_data) out' = out_data
     \<and> copy_loop row keys [] = Inr (last out')"
  using copy_from_keys_None[OF assms] by auto

text \<open>Two records are there, a third is appended.\<close>

theorem copy_from_keys_appends_witness:
  "copy_from_keys [''Id'' \<mapsto> Atom (AStr ''r3'')] [(''Id'', \<lparr>cd_key = ''id'', cd_value = None\<rparr>)]
      [[(''id'', Atom (AStr ''r1''))], [(''id'', Atom (AStr ''r2''))]] None
     = Inr [[(''id'', Atom (AStr ''r1''))], [(''id'', Atom (AStr ''r2''))], [(''id'', Atom (AStr ''r3''))]]
   \<and> length [[(''id'', Atom (AStr ''r1''))], [(''id'', Atom (AStr ''r2''))], [(''id'', Atom (AStr ''r3''))]]
       = length [[(''id'', Atom (AStr ''r1''))], [(''id'', Atom (AStr ''r2''))]] + 1"
  using copy_from_keys_appends
    [of "[''Id'' \<mapsto> Atom (AStr ''r3'')]" "[(''Id'', \<lparr>cd_key = ''id'', cd_value = None\<rparr>)]"
        "[[(''id'', Atom (AStr ''r1''))], [(''id'', Atom (AStr ''r2''))]]"
        "[[(''id'', Atom (AStr ''r1''))], [(''id'', Atom (AStr ''r2''))], [(''id'', Atom (AStr ''r3''))]]"]
  by (simp add: copy_from_keys_def)

lemma py_index_beyond: "int n \<le> i \<Longrightarrow> py_index n i = None"
  by (simp add: py_index_def Let_def)

lemma py_index_within: "0 \<le> i \<Longrightarrow> i < int n \<Longrightarrow> py_index n i = Some (nat i)"
  by (simp add: py_index_def Let_def)

lemma py_index_negative: "i < 0 \<Longrightarrow> - int n \<le> i \<Longrightarrow> py_index n i = Some (nat (int n + i))"
  by (simp add: py_index_def Let_def)

lemma py_index_below: "i < - int n \<Longrightarrow> py_index n i = None"
  by (simp add: py_index_def Let_def)

text \<open>
  Claim C5. With a positional index at or beyond the length of the output sequence,
  \<^verbatim>\<open>_copy_from_keys\<close> appends the projected record and does not raise. With an index
  within range it updates the record at that index and no other: a key of the projected
  record takes the projected value, every other key keeps the value it had.
\<close>

theorem copy_from_keys_positional:
  assumes "copy_loop row keys [] = Inr copyrow"
  shows "(int (length out_data) \<le> i \<longrightarrow>
            copy_from_keys row keys out_data (Some i) = Inr (out_data @ [copyrow]))
     \<and> (0 \<le> i \<and> i < int (length out_data) \<longrightarrow>
          (\<exists>out'. copy_from_keys row keys out_data (Some i) = Inr out'
             \<and> length out' = length out_data
             \<and> (\<forall>j < length out_data. j \<noteq> nat i \<longrightarrow> out' ! j = out_data ! j)
             \<and> (\<forall>K. map_of (out' ! nat i) K =
                    (case map_of copyrow K of Some v \<Rightarrow> Some v | None \<Rightarrow> map_of (out_data ! nat i) K))))"
proof -
  from copy_loop_distinct[OF assms] have d: "distinct (map fst copyrow)" by simp
  show ?thesis
    using assms by (auto simp: copy_from_keys_def py_index_beyond py_index_within map_of_dict_update[OF d])
qed

text \<open>
  The second pass of \<^verbatim>\<open>monster_life_scaling\<close>: the first pass left a record with
  \<^verbatim>\<open>level\<close> and \<^verbatim>\<open>magic\<close>. Index 0 merges \<^verbatim>\<open>rare\<close> into it; index 1 is beyond
  the sequence and appends.
\<close>

theorem copy_from_keys_positional_witness:
  "copy_from_keys [''Life'' \<mapsto> Atom (AInt 30)] [(''Life'', \<lparr>cd_key = ''rare'', cd_value = None\<rparr>)]
      [[(''level'', Atom (AInt 1)), (''magic'', Atom (AInt 20))]] (Some 0)
     = Inr [[(''level'', Atom (AInt 1)), (''magic'', Atom (AInt 20)), (''rare'', Atom (AInt 30))]]
   \<and> copy_from_keys [''Life'' \<mapsto> Atom (AInt 30)] [(''Life'', \<lparr>cd_key = ''rare'', cd_value = None\<rparr>)]
      [[(''level'', Atom (AInt 1)), (''magic'', Atom (AInt 20))]] (Some 1)
     = Inr [[(''level'', Atom (AInt 1)), (''magic'', Atom (AInt 20))], [(''rare'', Atom (AInt 30))]]"
proof -
  have loop: "copy_loop [''Life'' \<mapsto> Atom (AInt 30)] [(''Life'', \<lparr>cd_key = ''rare'', cd_value = None\<rparr>)] []
      = Inr [(''rare'', Atom (AInt 30))]"
    by simp
  have "copy_from_keys [''Life'' \<mapsto> Atom (AInt 30)] [(''Life'', \<lparr>cd_key = ''rare'', cd_value = None\<rparr>)]
      [[(''level'', Atom (AInt 1)), (''magic'', Atom (AInt 20))]] (Some 1)
     = Inr [[(''level'', Atom (AInt 1)), (''magic'', Atom (AInt 20))], [(''rare'', Atom (AInt 30))]]"
    using copy_from_keys_positional[OF loop, of "[[(''level'', Atom (AInt 1)), (''magic'', Atom (AInt 20))]]" 1]
    by simp
  moreover have "copy_from_keys [''Life'' \<mapsto> Atom (AInt 30)] [(''Life'', \<lparr>cd_key = ''rare'', cd_value = None\<rparr>)]
      [[(''level'', Atom (AInt 1)), (''magic'', Atom (AInt 20))]] (Some 0)
     = Inr [[(''level'', Atom (AInt 1)), (''magic'', Atom (AInt 20)), (''rare'', Atom (AInt 30))]]"
    by (simp add: copy_from_keys_def py_index_def)
  ultimately show ?thesis by simp
qed

text \<open>
  Python's negative indices, which the claim does not speak of: an index from
  \<^verbatim>\<open>-len\<close> to \<^verbatim>\<open>-1\<close> updates the record counted from the end, one below
  \<^verbatim>\<open>-len\<close> appends.
\<close>

lemma copy_from_keys_negative_index:
  assumes "copy_loop row keys [] = Inr copyrow"
  shows "i < 0 \<Longrightarrow> - int (length out_data) \<le> i \<Longrightarrow>
           copy_from_keys row keys out_data (Some i)
           = Inr (out_data[nat (int (length out_data) + i)
                    := dict_update (out_data ! nat (int (length out_data) + i)) copyrow])"
    and "i < - int (length out_data) \<Longrightarrow>
           copy_from_keys row keys out_data (Some i) = Inr (out_data @ [copyrow])"
  using assms by (simp_all add: copy_from_keys_def py_index_negative py_index_below)

text \<open>
  Claim C10, amended. A source field whose value is an empty sequence is not skipped: the
  projected record has the spec's output key. When no other spec of the list writes the
  same output key: without a transform the key is bound to the empty sequence, and whatever
  \<^verbatim>\<open>lua_items\<close> makes of the record holds the entry \<^verbatim>\<open>key={},\<close>; with a transform
  the transform has returned on the empty sequence, the key is bound to what it returned,
  and the text holds the entry of that value.
\<close>

theorem empty_sequence_not_skipped:
  assumes "copy_from_keys row keys out_data None = Inr out'"
    and "(k, cd) \<in> set keys"
    and "row k = Some (Seq [])"
  shows "cd_key cd \<in> fst ` set (last out')
     \<and> ((\<forall>s \<in> set keys. cd_key (snd s) = cd_key cd \<longrightarrow> s = (k, cd)) \<longrightarrow>
          (case cd_value cd of
             None \<Rightarrow>
               map_of (last out') (cd_key cd) = Some (Seq [])
               \<and> lua_entry (cd_key cd) (Seq []) = Inr ([tab, tab] @ cd_key cd @ ''={},'' @ [nl])
               \<and> (\<forall>str. lua_items (last out') = Inr str \<longrightarrow>
                     (\<exists>pre post. str = pre @ [tab, tab] @ cd_key cd @ ''={},'' @ [nl] @ post))
           | Some f \<Rightarrow>
               (\<exists>v'. f (Seq []) = Inr v'
                  \<and> map_of (last out') (cd_key cd) = Some v'
                  \<and> (\<forall>str. lua_items (last out') = Inr str \<longrightarrow>
                        (\<exists>e pre post. lua_entry (cd_key cd) v' = Inr e \<and> str = pre @ e @ post)))))"
proof -
  from copy_from_keys_None[OF assms(1)] obtain copyrow
    where loop: "copy_loop row keys [] = Inr copyrow" and out: "out' = out_data @ [copyrow]"
    by blast
  from copy_loop_writes_key[OF loop assms(2,3)]
  have present: "cd_key cd \<in> fst ` set copyrow" by simp
  have entry: "lua_entry (cd_key cd) (Seq []) = Inr ([tab, tab] @ cd_key cd @ ''={},'' @ [nl])"
    by simp
  have "(case cd_value cd of
             None \<Rightarrow>
               map_of copyrow (cd_key cd) = Some (Seq [])
               \<and> lua_entry (cd_key cd) (Seq []) = Inr ([tab, tab] @ cd_key cd @ ''={},'' @ [nl])
               \<and> (\<forall>str. lua_items copyrow = Inr str \<longrightarrow>
                     (\<exists>pre post. str = pre @ [tab, tab] @ cd_key cd @ ''={},'' @ [nl] @ post))
           | Some f \<Rightarrow>
               (\<exists>v'. f (Seq []) = Inr v'
                  \<and> map_of copyrow (cd_key cd) = Some v'
                  \<and> (\<forall>str. lua_items copyrow = Inr str \<longrightarrow>
                        (\<exists>e pre post. lua_entry (cd_key cd) v' = Inr e \<and> str = pre @ e @ post))))"
    if uniq: "\<forall>s \<in> set keys. cd_key (snd s) = cd_key cd \<longrightarrow> s = (k, cd)"
  proof (cases "cd_value cd")
    case None
    from copy_loop_stored[OF loop assms(2) uniq] assms(3) None
    have bound: "map_of copyrow (cd_key cd) = Some (Seq [])" by (simp add: stored_def)
    then have mem: "(cd_key cd, Seq []) \<in> set copyrow" by (rule map_of_SomeD)
    have "\<forall>str. lua_items copyrow = Inr str \<longrightarrow>
                (\<exists>pre post. str = pre @ [tab, tab] @ cd_key cd @ ''={},'' @ [nl] @ post)"
    proof (intro allI impI)
      fix str assume "lua_items copyrow = Inr str"
      from lua_items_renders[OF this mem] entry
      show "\<exists>pre post. str = pre @ [tab, tab] @ cd_key cd @ ''={},'' @ [nl] @ post"
        by auto
    qed
    with bound entry None show ?thesis by simp
  next
    case (Some f)
    from present have "map_of copyrow (cd_key cd) \<noteq> None"
      by (simp add: map_of_eq_None_iff)
    with copy_loop_stored[OF loop assms(2) uniq] assms(3) Some
    obtain v' where f: "f (Seq []) = Inr v'" and bound: "map_of copyrow (cd_key cd) = Some v'"
      by (auto simp: stored_def split: sum.splits)
    from bound have mem: "(cd_key cd, v') \<in> set copyrow" by (rule map_of_SomeD)
    have "\<forall>str. lua_items copyrow = Inr str \<longrightarrow>
                (\<exists>e pre post. lua_entry (cd_key cd) v' = Inr e \<and> str = pre @ e @ post)"
      using lua_items_renders[OF _ mem] by blast
    with f bound have "f (Seq []) = Inr v'
                  \<and> map_of copyrow (cd_key cd) = Some v'
                  \<and> (\<forall>str. lua_items copyrow = Inr str \<longrightarrow>
                        (\<exists>e pre post. lua_entry (cd_key cd) v' = Inr e \<and> str = pre @ e @ post))"
      by (intro conjI)
    then have "\<exists>v'. f (Seq []) = Inr v'
                  \<and> map_of copyrow (cd_key cd) = Some v'
                  \<and> (\<forall>str. lua_items copyrow = Inr str \<longrightarrow>
                        (\<exists>e pre post. lua_entry (cd_key cd) v' = Inr e \<and> str = pre @ e @ post))"
      by (rule exI)
    with Some show ?thesis by simp
  qed
  note rule = this
  from out have l: "last out' = copyrow" by simp
  show ?thesis
    unfolding l
  proof (intro conjI impI)
    show "cd_key cd \<in> fst ` set copyrow" by (rule present)
  qed (rule rule)
qed

text \<open>
  A row whose \<^verbatim>\<open>Tags\<close> field is an empty list, copied under \<^verbatim>\<open>tags\<close> without a
  transform: the record has the key and the serialized text has \<^verbatim>\<open>tags={},\<close>.
\<close>

theorem empty_sequence_not_skipped_witness:
  "copy_from_keys [''Tags'' \<mapsto> Seq []] [(''Tags'', \<lparr>cd_key = ''tags'', cd_value = None\<rparr>)] [] None
     = Inr [[(''tags'', Seq [])]]
   \<and> map_of (last [[(''tags'', Seq [])]]) ''tags'' = Some (Seq [])
   \<and> lua_formatter [[(''tags'', Seq [])]]
     = Inr (''local data = {'' @ [nl, tab] @ ''{'' @ [nl, tab, tab] @ ''tags={},'' @ [nl, tab]
            @ ''},'' @ [nl, nl] @ ''}'' @ [nl] @ ''return data'')"
proof -
  have run: "copy_from_keys [''Tags'' \<mapsto> Seq []] [(''Tags'', \<lparr>cd_key = ''tags'', cd_value = None\<rparr>)] [] None
     = Inr [[(''tags'', Seq [])]]"
    by (simp add: copy_from_keys_def)
  from empty_sequence_not_skipped[OF run, of "''Tags''" "\<lparr>cd_key = ''tags'', cd_value = None\<rparr>"]
  have "map_of (last [[(''tags'', Seq [])]]) ''tags'' = Some (Seq [])"
    by simp
  moreover have "lua_formatter [[(''tags'', Seq [])]]
     = Inr (''local data = {'' @ [nl, tab] @ ''{'' @ [nl, tab, tab] @ ''tags={},'' @ [nl, tab]
            @ ''},'' @ [nl, nl] @ ''}'' @ [nl] @ ''return data'')"
    by (simp add: lua_formatter_def)
  ultimately show ?thesis using run by simp
qed

text \<open>
  Claim C10 as stated fails in two ways. The \<^verbatim>\<open>TagsKeys\<close> spec of \<^verbatim>\<open>MonsterParser\<close>
  declares a transform: for a monster type without tags the field is the empty list, the
  record binds \<^verbatim>\<open>tags\<close> to the empty string and the text has \<^verbatim>\<open>tags="",\<close>, not
  \<^verbatim>\<open>tags={},\<close>. And where a later spec writes the same output key, its value replaces
  the empty sequence.
\<close>

theorem empty_sequence_transformed_counterexample:
  "copy_from_keys [''TagsKeys'' \<mapsto> Seq []]
      [(''TagsKeys'', \<lparr>cd_key = ''tags'', cd_value = Some tags_value\<rparr>)] [] None
     = Inr [[(''tags'', Atom (AStr []))]]
   \<and> lua_formatter [[(''tags'', Atom (AStr []))]]
     = Inr (''local data = {'' @ [nl, tab] @ ''{'' @ [nl, tab, tab] @ ''tags='' @ [dq, dq] @ '','' @ [nl, tab]
            @ ''},'' @ [nl, nl] @ ''}'' @ [nl] @ ''return data'')
   \<and> copy_from_keys [''A'' \<mapsto> Seq [], ''B'' \<mapsto> Atom (AInt 7)]
      [(''A'', \<lparr>cd_key = ''k'', cd_value = None\<rparr>), (''B'', \<lparr>cd_key = ''k'', cd_value = None\<rparr>)] [] None
     = Inr [[(''k'', Atom (AInt 7))]]
   \<and> lua_formatter [[(''k'', Atom (AInt 7))]]
     = Inr (''local data = {'' @ [nl, tab] @ ''{'' @ [nl, tab, tab] @ ''k=7,'' @ [nl, tab]
            @ ''},'' @ [nl, nl] @ ''}'' @ [nl] @ ''return data'')"
  by (simp add: copy_from_keys_def lua_formatter_def str_int_def str_nat.simps digit_char_def)

section \<open>Deterministic ordering\<close>


lemma insort_key_pair:
  fixes f :: "'a \<Rightarrow> 'k::linorder" and g :: "'a \<Rightarrow> 'l::linorder"
  shows "\<forall>y \<in> set ys. g x \<le> g y \<Longrightarrow> insort_key f x ys = insort_key (\<lambda>x. (f x, g x)) x ys"
  by (induction ys) auto

lemma sort_key_pair:
  fixes f :: "'a \<Rightarrow> 'k::linorder" and g :: "'a \<Rightarrow> 'l::linorder"
  shows "sorted (map g zs) \<Longrightarrow> sort_key f zs = sort_key (\<lambda>x. (f x, g x)) zs"
proof (induction zs)
  case Nil
  then show ?case by simp
next
  case (Cons z zs)
  then have "\<forall>y \<in> set (sort_key (\<lambda>x. (f x, g x)) zs). g z \<le> g y"
    by auto
  from insort_key_pair[OF this] Cons show ?case
    by simp
qed

lemma sort_key_twice:
  fixes f :: "'a \<Rightarrow> 'k::linorder" and g :: "'a \<Rightarrow> 'l::linorder"
  shows "sort_key f (sort_key g xs) = sort_key (\<lambda>x. (f x, g x)) xs"
proof (rule sym, rule properties_for_sort_key)
  show "mset (sort_key f (sort_key g xs)) = mset xs" by simp
next
  fix k
  have "filter (\<lambda>x. (f k, g k) = (f x, g x)) (sort_key f (sort_key g xs))
      = filter (\<lambda>x. g x = g k) (filter (\<lambda>x. f x = f k) (sort_key f (sort_key g xs)))"
    by (auto intro: filter_cong)
  also have "\<dots> = filter (\<lambda>x. g x = g k) (filter (\<lambda>x. f x = f k) (sort_key g xs))"
    by (simp only: sort_key_stable)
  also have "\<dots> = filter (\<lambda>x. f x = f k) (filter (\<lambda>x. g x = g k) (sort_key g xs))"
    by (auto intro: filter_cong)
  also have "\<dots> = filter (\<lambda>x. f x = f k) (filter (\<lambda>x. g x = g k) xs)"
    by (simp only: sort_key_stable)
  also have "\<dots> = filter (\<lambda>x. (f k, g k) = (f x, g x)) xs"
    by (auto intro: filter_cong)
  finally show "filter (\<lambda>x. (f k, g k) = (f x, g x)) (sort_key f (sort_key g xs))
      = filter (\<lambda>x. (f k, g k) = (f x, g x)) xs" .
next
  show "sorted (map (\<lambda>x. (f x, g x)) (sort_key f (sort_key g xs)))"
    by (simp add: sort_key_pair[of g "sort_key g xs" f])
qed

lemma insort_key_agree:
  "f x = g x \<Longrightarrow> \<forall>y \<in> set ys. f y = g y \<Longrightarrow> insort_key f x ys = insort_key g x ys"
  by (induction ys) auto

lemma sort_key_agree:
  "\<forall>x \<in> set xs. f x = g x \<Longrightarrow> sort_key f xs = sort_key g xs"
proof (induction xs)
  case Nil
  then show ?case by simp
next
  case (Cons x xs)
  then have "sort_key f xs = sort_key g xs" by simp
  moreover from Cons.prems have "insort_key f x (sort_key g xs) = insort_key g x (sort_key g xs)"
    by (intro insort_key_agree) auto
  ultimately show ?case by simp
qed

lemma sort_key_short: "length xs \<le> 1 \<Longrightarrow> sort_key f xs = xs"
  by (cases xs) (auto simp: Suc_le_eq)

lemma sort_triple_fields:
  assumes "sort_triple x = Some (a, q, r)"
  shows "map_of x ''act'' = Some (Atom (AInt a))"
    and "map_of x ''quest_id'' = Some (Atom (AStr q))"
    and "map_of x ''reward'' = Some (Atom (AStr r))"
  using assms
  by (auto simp: sort_triple_def split: option.splits pyval.splits atom.splits)

lemma sort_by_field_str:
  assumes "\<forall>x \<in> set outdata. \<exists>s. map_of x field = Some (Atom (AStr s))"
  shows "sort_by_field field outdata = Inr (sort_key (\<lambda>x. the (str_field field x)) outdata)"
proof (cases "length outdata \<le> 1")
  case True
  with assms show ?thesis
    by (auto simp: sort_by_field_def list_ex_iff sort_key_short)
next
  case False
  then obtain x where x: "x \<in> set outdata"
    by (cases outdata) auto
  with assms have "int_field field x = None"
    by (auto simp: int_field_def)
  with x have "\<not> list_all (\<lambda>x. int_field field x \<noteq> None) outdata"
    by (auto simp: list_all_iff)
  moreover from assms have "list_all (\<lambda>x. str_field field x \<noteq> None) outdata"
    by (auto simp: list_all_iff str_field_def)
  moreover from assms have "\<not> list_ex (\<lambda>x. map_of x field = None) outdata"
    by (auto simp: list_ex_iff)
  ultimately show ?thesis using False
    by (simp add: sort_by_field_def)
qed

lemma sort_by_field_int:
  assumes "\<forall>x \<in> set outdata. \<exists>i. map_of x field = Some (Atom (AInt i))"
  shows "sort_by_field field outdata = Inr (sort_key (\<lambda>x. the (int_field field x)) outdata)"
proof (cases "length outdata \<le> 1")
  case True
  with assms show ?thesis
    by (auto simp: sort_by_field_def list_ex_iff sort_key_short)
next
  case False
  from assms have "list_all (\<lambda>x. int_field field x \<noteq> None) outdata"
    by (auto simp: list_all_iff int_field_def)
  moreover from assms have "\<not> list_ex (\<lambda>x. map_of x field = None) outdata"
    by (auto simp: list_ex_iff)
  ultimately show ?thesis using False
    by (simp add: sort_by_field_def)
qed

lemma pre_sort_typed:
  assumes "list_all (\<lambda>x. sort_triple x \<noteq> None) outdata"
  shows "pre_sort outdata = Inr (sort_key (\<lambda>x. the (sort_triple x)) outdata)"
proof -
  let ?A = "\<lambda>x. the (int_field ''act'' x)"
  let ?Q = "\<lambda>x. the (str_field ''quest_id'' x)"
  let ?R = "\<lambda>x. the (str_field ''reward'' x)"
  have typed: "\<exists>a q r. sort_triple x = Some (a, q, r)" if "x \<in> set outdata" for x
    using that assms by (auto simp: list_all_iff)
  have fr: "\<exists>s. map_of x ''reward'' = Some (Atom (AStr s))" if "x \<in> set outdata" for x
    using typed[OF that] sort_triple_fields(3) by blast
  have fq: "\<exists>s. map_of x ''quest_id'' = Some (Atom (AStr s))" if "x \<in> set outdata" for x
    using typed[OF that] sort_triple_fields(2) by blast
  have fa: "\<exists>i. map_of x ''act'' = Some (Atom (AInt i))" if "x \<in> set outdata" for x
    using typed[OF that] sort_triple_fields(1) by blast
  have r: "sort_by_field ''reward'' outdata = Inr (sort_key ?R outdata)"
    by (rule sort_by_field_str) (simp add: fr)
  have q: "sort_by_field ''quest_id'' (sort_key ?R outdata) = Inr (sort_key ?Q (sort_key ?R outdata))"
    by (rule sort_by_field_str) (simp add: fq)
  have a: "sort_by_field ''act'' (sort_key ?Q (sort_key ?R outdata))
             = Inr (sort_key ?A (sort_key ?Q (sort_key ?R outdata)))"
    by (rule sort_by_field_int) (simp add: fa)
  have "sort_key ?A (sort_key ?Q (sort_key ?R outdata)) = sort_key (\<lambda>x. (?A x, ?Q x, ?R x)) outdata"
    by (simp only: sort_key_twice)
  also have "\<dots> = sort_key (\<lambda>x. the (sort_triple x)) outdata"
  proof (rule sort_key_agree, rule ballI)
    fix x assume "x \<in> set outdata"
    from typed[OF this] obtain a q r where t: "sort_triple x = Some (a, q, r)" by blast
    from sort_triple_fields[OF t] t show "(?A x, ?Q x, ?R x) = the (sort_triple x)"
      by (simp add: int_field_def str_field_def)
  qed
  finally show ?thesis
    using r q a by (simp add: pre_sort_def)
qed

text \<open>
  Claim C3. For records that have an integer under \<^verbatim>\<open>act\<close> and strings under
  \<^verbatim>\<open>quest_id\<close> and \<^verbatim>\<open>reward\<close>, the three successive sorts of \<^verbatim>\<open>_write_lua\<close> return,
  without raising, the stable sort by the triple (act, quest_id, reward): a rearrangement
  of the input, ascending in the lexicographic order of the triples, in which the records
  of any one triple keep the order they had in the input.
\<close>

theorem pre_sort_lexicographic:
  assumes "list_all (\<lambda>x. sort_triple x \<noteq> None) outdata"
  shows "\<exists>ys. pre_sort outdata = Inr ys
           \<and> ys = sort_key (\<lambda>x. the (sort_triple x)) outdata
           \<and> mset ys = mset outdata
           \<and> sorted (map (\<lambda>x. the (sort_triple x)) ys)
           \<and> (\<forall>k. filter (\<lambda>x. the (sort_triple x) = k) ys
                    = filter (\<lambda>x. the (sort_triple x) = k) outdata)"
  using pre_sort_typed[OF assms] by (simp add: sort_key_stable)

text \<open>
  The records of the specification, (2, q1, x), (1, q2, y), (1, q1, z), come out as
  (1, q1, z), (1, q2, y), (2, q1, x).
\<close>

theorem pre_sort_lexicographic_witness:
  "list_all (\<lambda>x. sort_triple x \<noteq> None)
     [[(''act'', Atom (AInt 2)), (''quest_id'', Atom (AStr ''q1'')), (''reward'', Atom (AStr ''x''))],
      [(''act'', Atom (AInt 1)), (''quest_id'', Atom (AStr ''q2'')), (''reward'', Atom (AStr ''y''))],
      [(''act'', Atom (AInt 1)), (''quest_id'', Atom (AStr ''q1'')), (''reward'', Atom (AStr ''z''))]]
   \<and> pre_sort
     [[(''act'', Atom (AInt 2)), (''quest_id'', Atom (AStr ''q1'')), (''reward'', Atom (AStr ''x''))],
      [(''act'', Atom (AInt 1)), (''quest_id'', Atom (AStr ''q2'')), (''reward'', Atom (AStr ''y''))],
      [(''act'', Atom (AInt 1)), (''quest_id'', Atom (AStr ''q1'')), (''reward'', Atom (AStr ''z''))]]
   = Inr
     [[(''act'', Atom (AInt 1)), (''quest_id'', Atom (AStr ''q1'')), (''reward'', Atom (AStr ''z''))],
      [(''act'', Atom (AInt 1)), (''quest_id'', Atom (AStr ''q2'')), (''reward'', Atom (AStr ''y''))],
      [(''act'', Atom (AInt 2)), (''quest_id'', Atom (AStr ''q1'')), (''reward'', Atom (AStr ''x''))]]"
proof -
  have typed: "list_all (\<lambda>x. sort_triple x \<noteq> None)
     [[(''act'', Atom (AInt 2)), (''quest_id'', Atom (AStr ''q1'')), (''reward'', Atom (AStr ''x''))],
      [(''act'', Atom (AInt 1)), (''quest_id'', Atom (AStr ''q2'')), (''reward'', Atom (AStr ''y''))],
      [(''act'', Atom (AInt 1)), (''quest_id'', Atom (AStr ''q1'')), (''reward'', Atom (AStr ''z''))]]"
    by (simp add: sort_triple_def)
  from pre_sort_lexicographic[OF typed] typed show ?thesis
    by (simp add: sort_triple_def)
qed

text \<open>
  Outside the typing of the claim the sorts raise, as Python does: a record without one of
  the fields gives \<^verbatim>\<open>KeyError\<close>, an integer beside a string under the same field gives
  \<^verbatim>\<open>TypeError\<close>.
\<close>

lemma pre_sort_raises:
  "pre_sort [[(''act'', Atom (AInt 1)), (''quest_id'', Atom (AStr ''q1''))],
             [(''act'', Atom (AInt 1)), (''quest_id'', Atom (AStr ''q1'')), (''reward'', Atom (AStr ''z''))]]
     = Inl KeyError"
  "pre_sort [[(''act'', Atom (AInt 1)), (''quest_id'', Atom (AStr ''q1'')), (''reward'', Atom (AStr ''x''))],
             [(''act'', Atom (AStr ''1'')), (''quest_id'', Atom (AStr ''q1'')), (''reward'', Atom (AStr ''z''))]]
     = Inl TypeError"
  by (simp_all add: pre_sort_def sort_by_field_def int_field_def str_field_def)

section \<open>The merge step\<close>


lemma setitem_new: "map_of d k = None \<Longrightarrow> setitem d k v = d @ [(k, v)]"
  by (induction d k v rule: setitem.induct) (auto split: if_splits)

lemma keys_order_setitem: "map_of d k \<noteq> None \<Longrightarrow> map fst (setitem d k v) = map fst d"
  by (induction d k v rule: setitem.induct) auto

text \<open>The first record of an identity key is stored as it is, after the groups already there.\<close>

lemma merge_first:
  assumes "map_of compress key = None"
  shows "vendor_merge compress key data = Inr (compress @ [(key, data)])"
    and "quest_merge compress key data character = Inr (compress @ [(key, data)])"
  using assms by (simp_all add: vendor_merge_def quest_merge_def setitem_new)

text \<open>
  A later record of the vendor path that has \<^verbatim>\<open>classes\<close>: the representative's value is
  extended by the separator and the new value; no other field of it and no other group
  changes, and no key moves.
\<close>

lemma vendor_merge_append:
  assumes "map_of compress key = Some rep"
    and "map_of rep ''classes'' = Some (Atom (AStr old))"
    and "map_of data ''classes'' = Some (Atom (AStr new))"
  shows "\<exists>rep'. vendor_merge compress key data = Inr (setitem compress key rep')
           \<and> map_of (setitem compress key rep') key = Some rep'
           \<and> (\<forall>k. k \<noteq> key \<longrightarrow> map_of (setitem compress key rep') k = map_of compress k)
           \<and> map fst (setitem compress key rep') = map fst compress
           \<and> map_of rep' ''classes'' = Some (Atom (AStr (old @ [unit_sep] @ new)))
           \<and> (\<forall>f. f \<noteq> ''classes'' \<longrightarrow> map_of rep' f = map_of rep f)
           \<and> map fst rep' = map fst rep"
  using assms
  by (auto simp: vendor_merge_def map_of_setitem keys_order_setitem)

text \<open>A later record of the vendor path without \<^verbatim>\<open>classes\<close> changes nothing.\<close>

lemma vendor_merge_lacking:
  assumes "map_of compress key = Some rep" and "map_of data ''classes'' = None"
  shows "vendor_merge compress key data = Inr compress"
  using assms by (simp add: vendor_merge_def)

text \<open>A later record of the quest path whose row has a character.\<close>

lemma quest_merge_append:
  assumes "map_of compress key = Some rep"
    and "map_of rep ''classes'' = Some (Atom (AStr old))"
  shows "\<exists>rep'. quest_merge compress key data (Some name) = Inr (setitem compress key rep')
           \<and> map_of (setitem compress key rep') key = Some rep'
           \<and> (\<forall>k. k \<noteq> key \<longrightarrow> map_of (setitem compress key rep') k = map_of compress k)
           \<and> map fst (setitem compress key rep') = map fst compress
           \<and> map_of rep' ''classes'' = Some (Atom (AStr (old @ [unit_sep] @ name)))
           \<and> (\<forall>f. f \<noteq> ''classes'' \<longrightarrow> map_of rep' f = map_of rep f)
           \<and> map fst rep' = map fst rep"
  using assms
  by (auto simp: quest_merge_def map_of_setitem keys_order_setitem)

text \<open>
  Claim C6 at its failing inputs. In the quest path a second row of the same identity key
  whose \<^verbatim>\<open>CharactersKey\<close> is \<^verbatim>\<open>None\<close>, so that its record has no \<^verbatim>\<open>classes\<close>, raises
  \<^verbatim>\<open>TypeError\<close> at source line 566; the vendor path, which tests
  \<^verbatim>\<open>'classes' in data\<close> first, leaves the representative as it is. In both paths a
  record with \<^verbatim>\<open>classes\<close> arriving at a representative without it raises
  \<^verbatim>\<open>KeyError\<close>.
\<close>

theorem quest_merge_lacking_raises:
  "quest_merge
     [(''a1q1Ring120'', [(''quest'', Atom (AStr ''Enemy at the Gate'')), (''quest_id'', Atom (AStr ''a1q1'')),
                         (''act'', Atom (AInt 1)), (''classes'', Atom (AStr ''Witch'')),
                         (''reward'', Atom (AStr ''Ring''))])]
     ''a1q1Ring120''
     [(''quest'', Atom (AStr ''Enemy at the Gate'')), (''quest_id'', Atom (AStr ''a1q1'')),
      (''act'', Atom (AInt 1)), (''reward'', Atom (AStr ''Ring''))]
     None
   = Inl TypeError
   \<and> vendor_merge
     [(''a1q1Ring12'', [(''quest'', Atom (AStr ''Enemy at the Gate'')), (''quest_id'', Atom (AStr ''a1q1'')),
                        (''act'', Atom (AInt 1)), (''reward'', Atom (AStr ''Ring'')),
                        (''npc'', Atom (AStr ''Nessa'')), (''classes'', Atom (AStr ''Witch''))])]
     ''a1q1Ring12''
     [(''quest'', Atom (AStr ''Enemy at the Gate'')), (''quest_id'', Atom (AStr ''a1q1'')),
      (''act'', Atom (AInt 1)), (''reward'', Atom (AStr ''Ring'')), (''npc'', Atom (AStr ''Nessa''))]
   = Inr [(''a1q1Ring12'', [(''quest'', Atom (AStr ''Enemy at the Gate'')), (''quest_id'', Atom (AStr ''a1q1'')),
                        (''act'', Atom (AInt 1)), (''reward'', Atom (AStr ''Ring'')),
                        (''npc'', Atom (AStr ''Nessa'')), (''classes'', Atom (AStr ''Witch''))])]
   \<and> quest_merge
     [(''a1q1Ring120'', [(''quest'', Atom (AStr ''Enemy at the Gate'')), (''quest_id'', Atom (AStr ''a1q1'')),
                         (''act'', Atom (AInt 1)), (''reward'', Atom (AStr ''Ring''))])]
     ''a1q1Ring120''
     [(''quest'', Atom (AStr ''Enemy at the Gate'')), (''quest_id'', Atom (AStr ''a1q1'')),
      (''act'', Atom (AInt 1)), (''classes'', Atom (AStr ''Witch'')), (''reward'', Atom (AStr ''Ring''))]
     (Some ''Witch'')
   = Inl KeyError
   \<and> vendor_merge
     [(''a1q1Ring12'', [(''quest'', Atom (AStr ''Enemy at the Gate'')), (''quest_id'', Atom (AStr ''a1q1'')),
                        (''act'', Atom (AInt 1)), (''reward'', Atom (AStr ''Ring'')),
                        (''npc'', Atom (AStr ''Nessa''))])]
     ''a1q1Ring12''
     [(''quest'', Atom (AStr ''Enemy at the Gate'')), (''quest_id'', Atom (AStr ''a1q1'')),
      (''act'', Atom (AInt 1)), (''reward'', Atom (AStr ''Ring'')), (''npc'', Atom (AStr ''Nessa'')),
      (''classes'', Atom (AStr ''Witch''))]
   = Inl KeyError"
  by (simp add: quest_merge_def vendor_merge_def)

section \<open>The vendor-reward export\<close>


lemma subscript_each_resolved:
  "list_all (\<lambda>ref. ref \<noteq> None) refs \<Longrightarrow>
   subscript_each refs field = Inr (map (\<lambda>ref. field (the ref)) refs)"
  by (induction refs) (auto simp: subscript_def)

lemma subscript_each_unresolved:
  "\<not> list_all (\<lambda>ref. ref \<noteq> None) refs \<Longrightarrow> subscript_each refs field = Inl TypeError"
  by (induction refs) (auto simp: subscript_def split: option.splits sum.splits)

lemma subscript_each_Inr:
  assumes "subscript_each refs field = Inr xs"
  shows "list_all (\<lambda>ref. ref \<noteq> None) refs" and "xs = map (\<lambda>ref. field (the ref)) refs"
proof -
  from assms show r: "list_all (\<lambda>ref. ref \<noteq> None) refs"
    using subscript_each_unresolved[of refs field] by auto
  from subscript_each_resolved[OF r, of field] assms
  show "xs = map (\<lambda>ref. field (the ref)) refs" by simp
qed

lemma vendor_row_step_skips:
  "reported quest_states quest_index row \<Longrightarrow>
   vendor_row_step quest_states quest_index row (compress, warnings)
     = Inr (compress, warnings @ [skip_warning quest_states row])"
  by (auto simp: reported_def lacks_key_inputs_def warning_resolved_def vendor_row_step_def
                 skip_warning_def fallback_def no_quest_warning_def subscript_def
                 subscript_each_resolved
           split: if_splits)

lemma vendor_row_step_raises:
  "lacks_key_inputs quest_states row \<Longrightarrow> \<not> warning_resolved quest_states quest_index row \<Longrightarrow>
   vendor_row_step quest_states quest_index row st
     = Inl (if QuestState row = 385 then KeyError else TypeError)"
  by (auto simp: lacks_key_inputs_def warning_resolved_def vendor_row_step_def
                 fallback_def no_quest_warning_def subscript_def subscript_each_unresolved
           split: if_splits option.splits)

lemma vendor_row_step_keeps:
  "\<not> reported quest_states quest_index row \<Longrightarrow>
   vendor_row_step quest_states quest_index row (compress, warnings)
     = (case vendor_row_step quest_states quest_index row (compress, []) of
          Inl e \<Rightarrow> Inl e
        | Inr (compress', none) \<Rightarrow> Inr (compress', warnings))"
proof (cases "lacks_key_inputs quest_states row")
  case True
  assume "\<not> reported quest_states quest_index row"
  with True have "\<not> warning_resolved quest_states quest_index row"
    by (simp add: reported_def)
  from vendor_row_step_raises[OF True this] show ?thesis by simp
next
  case False
  then show ?thesis
    by (auto simp: lacks_key_inputs_def vendor_row_step_def fallback_def
             split: sum.splits option.splits if_splits)
qed

lemma vendor_rows_warnings:
  "vendor_rows quest_states quest_index rows (compress, warnings)
     = (case vendor_rows quest_states quest_index rows (compress, []) of
          Inl e \<Rightarrow> Inl e
        | Inr (compress', new) \<Rightarrow> Inr (compress', warnings @ new))"
proof (induction rows arbitrary: compress warnings)
  case Nil
  then show ?case by simp
next
  case (Cons row rows)
  show ?case
  proof (cases "reported quest_states quest_index row")
    case True
    show ?thesis
      using Cons.IH[of compress "warnings @ [skip_warning quest_states row]"]
            Cons.IH[of compress "[skip_warning quest_states row]"]
      by (simp add: vendor_row_step_skips[OF True] split: sum.splits)
  next
    case False
    show ?thesis
    proof (cases "vendor_row_step quest_states quest_index row (compress, [])")
      case (Inl e)
      with vendor_row_step_keeps[OF False, of compress warnings] show ?thesis
        by simp
    next
      case (Inr st)
      obtain c' n where st: "st = (c', n)" by (cases st)
      from Inr st vendor_row_step_keeps[OF False, of compress warnings]
      have full: "vendor_row_step quest_states quest_index row (compress, warnings) = Inr (c', warnings)"
        by simp
      from Inr st vendor_row_step_keeps[OF False, of compress "[]"]
      have n: "n = []" by simp
      from full Inr st n Cons.IH[of c' warnings] show ?thesis
        by simp
    qed
  qed
qed

lemma vendor_rows_filter:
  "vendor_rows quest_states quest_index rows (compress, warnings)
     = (case vendor_rows quest_states quest_index
               (filter (\<lambda>r. \<not> reported quest_states quest_index r) rows) (compress, warnings) of
          Inl e \<Rightarrow> Inl e
        | Inr (compress', same) \<Rightarrow>
            Inr (compress', warnings @ map (skip_warning quest_states)
                                          (filter (reported quest_states quest_index) rows)))"
proof (induction rows arbitrary: compress warnings)
  case Nil
  then show ?case by simp
next
  case (Cons row rows)
  let ?kept = "filter (\<lambda>r. \<not> reported quest_states quest_index r) rows"
  let ?skipped = "map (skip_warning quest_states) (filter (reported quest_states quest_index) rows)"
  show ?case
  proof (cases "reported quest_states quest_index row")
    case True
    let ?w = "skip_warning quest_states row"
    have "vendor_rows quest_states quest_index (row # rows) (compress, warnings)
            = vendor_rows quest_states quest_index rows (compress, warnings @ [?w])"
      by (simp add: vendor_row_step_skips[OF True])
    also have "\<dots> = (case vendor_rows quest_states quest_index ?kept (compress, warnings @ [?w]) of
          Inl e \<Rightarrow> Inl e
        | Inr (compress', same) \<Rightarrow> Inr (compress', (warnings @ [?w]) @ ?skipped))"
      by (rule Cons.IH)
    also have "\<dots> = (case vendor_rows quest_states quest_index ?kept (compress, warnings) of
          Inl e \<Rightarrow> Inl e
        | Inr (compress', same) \<Rightarrow> Inr (compress', warnings @ ?w # ?skipped))"
      using vendor_rows_warnings[of quest_states quest_index ?kept compress "warnings @ [?w]"]
            vendor_rows_warnings[of quest_states quest_index ?kept compress warnings]
      by (auto split: sum.splits)
    finally have run: "vendor_rows quest_states quest_index (row # rows) (compress, warnings)
        = (case vendor_rows quest_states quest_index ?kept (compress, warnings) of
          Inl e \<Rightarrow> Inl e
        | Inr (compress', same) \<Rightarrow> Inr (compress', warnings @ ?w # ?skipped))" .
    from True have kept: "filter (\<lambda>r. \<not> reported quest_states quest_index r) (row # rows) = ?kept"
      by simp
    from True have skipped: "map (skip_warning quest_states)
        (filter (reported quest_states quest_index) (row # rows)) = ?w # ?skipped"
      by simp
    show ?thesis by (simp only: run kept skipped)
  next
    case False
    show ?thesis
    proof (cases "vendor_row_step quest_states quest_index row (compress, [])")
      case (Inl e)
      with vendor_row_step_keeps[OF False, of compress warnings] False show ?thesis
        by simp
    next
      case (Inr st)
      obtain c' n where st: "st = (c', n)" by (cases st)
      from Inr st vendor_row_step_keeps[OF False, of compress warnings]
      have full: "vendor_row_step quest_states quest_index row (compress, warnings) = Inr (c', warnings)"
        by simp
      from full False Cons.IH[of c' warnings] show ?thesis
        by (simp cong del: sum.case_cong_weak)
    qed
  qed
qed


text \<open>
  Claim C8, amended. A row of \<^verbatim>\<open>QuestVendorRewards.dat\<close> whose state no row of
  \<^verbatim>\<open>QuestStates.dat\<close> lists (the state not being 385), or whose item list is empty, is
  reported and left out, provided what the function subscripts on the way to the warning
  resolves: the NPC and every item of a row without quest, whose names go into the
  message, and the quest \<^verbatim>\<open>a6q4\<close> for a row of state 385 that no row of
  \<^verbatim>\<open>QuestStates.dat\<close> lists. The step of such a row leaves \<^verbatim>\<open>compress\<close> as it is and
  adds one warning. Over the whole table, the loop raises exactly when the remaining rows
  alone would, and otherwise ends with the \<^verbatim>\<open>compress\<close> that the remaining rows alone
  give and with one warning for each such row, in row order.
\<close>

theorem vendor_rows_skip_and_warn:
  "(lacks_key_inputs quest_states row \<and> warning_resolved quest_states quest_index row \<longrightarrow>
      vendor_row_step quest_states quest_index row (compress, warnings)
        = Inr (compress, warnings @ [skip_warning quest_states row]))
   \<and> vendor_rows quest_states quest_index rows (compress, warnings)
       = (case vendor_rows quest_states quest_index
                 (filter (\<lambda>r. \<not> reported quest_states quest_index r) rows) (compress, warnings) of
            Inl e \<Rightarrow> Inl e
          | Inr (compress', same) \<Rightarrow>
              Inr (compress', warnings @ map (skip_warning quest_states)
                                            (filter (reported quest_states quest_index) rows)))"
proof (intro conjI impI)
  assume "lacks_key_inputs quest_states row \<and> warning_resolved quest_states quest_index row"
  then have "reported quest_states quest_index row" by (simp add: reported_def)
  then show "vendor_row_step quest_states quest_index row (compress, warnings)
        = Inr (compress, warnings @ [skip_warning quest_states row])"
    by (rule vendor_row_step_skips)
qed (rule vendor_rows_filter)

lemmas sample_defs = sample_quest_def sample_fallback_def sample_index_def sample_ring_def
  sample_npc_def sample_characters_def sample_states_def sample_vendor_rows_def
  sample_orphan_def sample_merged_def

lemmas vendor_defs = vendor_row_step_def find_quests_def fallback_def no_quest_warning_def
  subscript_def vendor_data_def vendor_key_def vendor_merge_def Let_def

text \<open>
  On the sample tables the second and third row are reported and the other two merge into
  one record.
\<close>

theorem vendor_rows_skip_and_warn_witness:
  "lacks_key_inputs sample_states (sample_vendor_rows ! 1)
   \<and> warning_resolved sample_states sample_index (sample_vendor_rows ! 1)
   \<and> vendor_row_step sample_states sample_index (sample_vendor_rows ! 1) ([], [])
       = Inr ([], [NoQuest 1 99 ''Nessa'' [''Two-Stone Ring'']])
   \<and> filter (reported sample_states sample_index) sample_vendor_rows
       = [sample_vendor_rows ! 1, sample_vendor_rows ! 2]
   \<and> vendor_rows sample_states sample_index sample_vendor_rows ([], [])
       = Inr ([(''a1q1Ring12'', sample_merged)],
              [NoQuest 1 99 ''Nessa'' [''Two-Stone Ring''], NoItems 2])"
proof -
  have lacks: "lacks_key_inputs sample_states (sample_vendor_rows ! 1)"
    by (simp add: sample_defs lacks_key_inputs_def find_quests_def)
  have resolved: "warning_resolved sample_states sample_index (sample_vendor_rows ! 1)"
    by (simp add: sample_defs warning_resolved_def find_quests_def)
  have warn: "skip_warning sample_states (sample_vendor_rows ! 1) = NoQuest 1 99 ''Nessa'' [''Two-Stone Ring'']"
    by (simp add: sample_defs skip_warning_def find_quests_def)
  from vendor_rows_skip_and_warn[of sample_states "sample_vendor_rows ! 1" sample_index "[]" "[]" sample_vendor_rows]
    lacks resolved warn
  have step: "vendor_row_step sample_states sample_index (sample_vendor_rows ! 1) ([], [])
       = Inr ([], [NoQuest 1 99 ''Nessa'' [''Two-Stone Ring'']])"
    by simp
  have skipped: "filter (reported sample_states sample_index) sample_vendor_rows
       = [sample_vendor_rows ! 1, sample_vendor_rows ! 2]"
    by (simp add: sample_defs reported_def lacks_key_inputs_def warning_resolved_def find_quests_def)
  have run: "vendor_rows sample_states sample_index sample_vendor_rows ([], [])
       = Inr ([(''a1q1Ring12'', sample_merged)],
              [NoQuest 1 99 ''Nessa'' [''Two-Stone Ring''], NoItems 2])"
    by (simp add: sample_defs vendor_defs)
  from lacks resolved step skipped run show ?thesis by (intro conjI)
qed

text \<open>
  Claim C8 as stated fails where a reference the warning reads does not resolve. The row
  below has a state that no row of \<^verbatim>\<open>QuestStates.dat\<close> lists, and no NPC: formatting
  the warning raises \<^verbatim>\<open>TypeError\<close>, nothing is reported, and the rows after it are not
  processed.
\<close>

theorem vendor_rows_unresolved_npc_counterexample:
  "lacks_key_inputs sample_states sample_orphan
   \<and> vendor_row_step sample_states sample_index sample_orphan ([], []) = Inl TypeError
   \<and> vendor_rows sample_states sample_index (sample_orphan # sample_vendor_rows) ([], [])
       = Inl TypeError"
  by (simp add: sample_orphan_def sample_states_def sample_ring_def lacks_key_inputs_def
                vendor_row_step_def find_quests_def fallback_def no_quest_warning_def subscript_def)

lemma map_of_delitem: "map_of (delitem d k) k' = (if k' = k then None else map_of d k')"
  unfolding delitem_def by (induction d) auto

lemma delitem_setitem: "delitem (setitem d k v) k = delitem d k"
  unfolding delitem_def by (induction d k v rule: setitem.induct) auto

lemma setitem_setitem: "setitem (setitem d k v) k w = setitem d k w"
  by (induction d k v rule: setitem.induct) auto

lemma prune_classes_str:
  assumes "map_of v ''classes'' = Some (Atom (AStr s))"
  shows "prune_classes classes_set v =
           Inr (if set classes_set \<subseteq> set (split unit_sep s)
                then delitem v ''classes''
                else setitem v ''classes''
                       (Atom (AStr (join [unit_sep] (sorted_list_of_set (set (split unit_sep s)))))))"
  using assms
  by (auto simp: prune_classes_def Let_def list_all_iff sorted_list_of_set_sort_remdups)


lemma prune_classes_order:
  assumes "map_of v ''classes'' = Some (Atom (AStr s))"
    and "prune_classes classes_set v = Inr v'"
    and "set (split unit_sep t) = set (split unit_sep s)"
  shows "prune_classes classes_set (setitem v ''classes'' (Atom (AStr t))) = Inr v'"
proof -
  have "map_of (setitem v ''classes'' (Atom (AStr t))) ''classes'' = Some (Atom (AStr t))"
    by (simp add: map_of_setitem)
  from prune_classes_str[OF this, of classes_set] prune_classes_str[OF assms(1), of classes_set]
    assms(2,3)
  show ?thesis
    by (simp add: delitem_setitem setitem_setitem)
qed

lemma split_not_Nil: "split c s \<noteq> []"
  by (induction s) (auto split: list.splits)

lemma split_append: "split c (a @ c # b) = split c a @ split c b"
proof (induction a)
  case Nil
  then show ?case by simp
next
  case (Cons x a)
  obtain w ws where w: "split c a = w # ws"
    using split_not_Nil[of c a] by (cases "split c a") auto
  with Cons show ?case by simp
qed

lemma split_free: "c \<notin> set a \<Longrightarrow> split c a = [a]"
  by (induction a) auto

lemma split_pieces_free: "p \<in> set (split c s) \<Longrightarrow> c \<notin> set p"
proof (induction s arbitrary: p)
  case Nil
  then show ?case by simp
next
  case (Cons x s)
  obtain w ws where w: "split c s = w # ws"
    using split_not_Nil[of c s] by (cases "split c s") auto
  show ?case
  proof (cases "x = c")
    case True
    with Cons.prems have "p = [] \<or> p \<in> set (split c s)" by simp
    with Cons.IH show ?thesis by auto
  next
    case False
    with Cons.prems w have "p = x # w \<or> p \<in> set ws" by simp
    with Cons.IH[of w] Cons.IH[of p] w False show ?thesis by auto
  qed
qed

lemma split_join: "xs \<noteq> [] \<Longrightarrow> split c (join [c] xs) = concat (map (split c) xs)"
proof (induction "[c]" xs rule: join.induct)
  case 1
  then show ?case by simp
next
  case (2 x)
  then show ?case by simp
next
  case (3 x y ys)
  then show ?case by (simp add: split_append)
qed

lemma set_setitem: "set (setitem d k v) \<subseteq> insert (k, v) (set d)"
  by (induction d k v rule: setitem.induct) auto

lemma known_classes_append:
  assumes "known_classes names [(''classes'', Atom (AStr s))]"
    and "known_classes names [(''classes'', Atom (AStr n))]"
  shows "known_classes names [(''classes'', Atom (AStr (s @ [unit_sep] @ n)))]"
  using assms by (simp add: known_classes_def split_append)

lemma known_classes_field:
  "known_classes names v \<longleftrightarrow>
     (case map_of v ''classes'' of
        None \<Rightarrow> True
      | Some c \<Rightarrow> \<exists>s. c = Atom (AStr s) \<and> known_classes names [(''classes'', Atom (AStr s))])"
  by (auto simp: known_classes_def split: option.splits pyval.splits atom.splits)

lemma vendor_data_known:
  assumes "characters_linked characters row"
    and "vendor_data quest item row = Inr data"
  shows "known_classes (map c_Name characters) data"
proof (cases "CharactersKeys row = []")
  case True
  with assms(2) show ?thesis
    by (auto simp: known_classes_def vendor_data_def Let_def split: option.splits)
next
  case False
  with assms(2) obtain front classes
    where classes: "subscript_each (CharactersKeys row) c_Name = Inr classes"
      and data: "data = front @ [(''classes'', Atom (AStr (join [unit_sep] classes)))]"
      and front: "map_of front ''classes'' = None"
    by (auto simp: vendor_data_def Let_def split: option.splits sum.splits)
  from subscript_each_Inr[OF classes]
  have resolved: "list_all (\<lambda>ref. ref \<noteq> None) (CharactersKeys row)"
    and names: "classes = map (\<lambda>ref. c_Name (the ref)) (CharactersKeys row)"
    by simp_all
  from False names have ne: "classes \<noteq> []" by simp
  have "set classes \<subseteq> set (map c_Name characters)"
  proof
    fix n assume "n \<in> set classes"
    with names obtain ref where ref: "ref \<in> set (CharactersKeys row)" and n: "n = c_Name (the ref)"
      by auto
    from resolved ref obtain ch where ch: "ref = Some ch"
      by (auto simp: list_all_iff)
    with assms(1) ref have "ch \<in> set characters"
      by (auto simp: characters_linked_def list_all_iff split: option.splits)
    with n ch show "n \<in> set (map c_Name characters)" by simp
  qed
  then have "set (concat (map (split unit_sep) classes))
               \<subseteq> (\<Union>n \<in> set (map c_Name characters). set (split unit_sep n))"
    by auto
  with split_join[OF ne, of unit_sep]
  have sub: "set (split unit_sep (join [unit_sep] classes))
               \<subseteq> (\<Union>n \<in> set (map c_Name characters). set (split unit_sep n))"
    by (simp only:)
  from data front
  have "map_of data ''classes'' = Some (Atom (AStr (join [unit_sep] classes)))"
    by (simp add: map_add_def)
  with sub show ?thesis
    by (simp add: known_classes_def)
qed

lemma vendor_merge_known:
  assumes "\<forall>(k, v) \<in> set compress. known_classes names v"
    and "known_classes names data"
    and "vendor_merge compress key data = Inr compress'"
  shows "\<forall>(k, v) \<in> set compress'. known_classes names v"
proof (cases "map_of compress key")
  case None
  with assms(3) have "compress' = setitem compress key data"
    by (simp add: vendor_merge_def)
  with assms(1,2) set_setitem[of compress key data] show ?thesis by auto
next
  case (Some rep)
  then have rep: "(key, rep) \<in> set compress" by (rule map_of_SomeD)
  with assms(1) have krep: "known_classes names rep" by auto
  show ?thesis
  proof (cases "map_of data ''classes''")
    case None
    with Some assms(3) have "compress' = compress" by (simp add: vendor_merge_def)
    with assms(1) show ?thesis by simp
  next
    case new: (Some new)
    with assms(2) obtain n where n: "new = Atom (AStr n)"
      and kn: "known_classes names [(''classes'', Atom (AStr n))]"
      by (auto simp: known_classes_field[of names data])
    from Some new n assms(3) obtain old where old: "map_of rep ''classes'' = Some old"
      by (auto simp: vendor_merge_def split: option.splits)
    with krep obtain s where s: "old = Atom (AStr s)"
      and ks: "known_classes names [(''classes'', Atom (AStr s))]"
      by (auto simp: known_classes_field[of names rep])
    let ?rep' = "setitem rep ''classes'' (Atom (AStr (s @ [unit_sep] @ n)))"
    from Some new n old s assms(3) have c': "compress' = setitem compress key ?rep'"
      by (simp add: vendor_merge_def)
    from known_classes_append[OF ks kn] have "known_classes names ?rep'"
      by (simp add: known_classes_def map_of_setitem)
    with c' assms(1) set_setitem[of compress key ?rep'] show ?thesis by auto
  qed
qed

lemma vendor_items_known:
  assumes "characters_linked characters row"
  shows "\<forall>(k, v) \<in> set compress. known_classes (map c_Name characters) v \<Longrightarrow>
         vendor_items row quest items compress = Inr compress' \<Longrightarrow>
         \<forall>(k, v) \<in> set compress'. known_classes (map c_Name characters) v"
proof (induction items arbitrary: compress)
  case Nil
  then show ?case by simp
next
  case (Cons item items)
  from Cons.prems(2) obtain data key c1
    where d: "vendor_data quest item row = Inr data"
      and m: "vendor_merge compress key data = Inr c1"
      and rest: "vendor_items row quest items c1 = Inr compress'"
    by (auto split: sum.splits)
  from vendor_merge_known[OF Cons.prems(1) vendor_data_known[OF assms d] m]
  have "\<forall>(k, v) \<in> set c1. known_classes (map c_Name characters) v" .
  from Cons.IH[OF this rest] show ?case .
qed

lemma vendor_quests_known:
  assumes "characters_linked characters row"
  shows "\<forall>(k, v) \<in> set compress. known_classes (map c_Name characters) v \<Longrightarrow>
         vendor_quests row quests compress = Inr compress' \<Longrightarrow>
         \<forall>(k, v) \<in> set compress'. known_classes (map c_Name characters) v"
proof (induction quests arbitrary: compress)
  case Nil
  then show ?case by simp
next
  case (Cons quest quests)
  from Cons.prems(2) obtain c1
    where m: "vendor_items row quest (BaseItemTypesKeys row) compress = Inr c1"
      and rest: "vendor_quests row quests c1 = Inr compress'"
    by (auto split: sum.splits)
  from vendor_items_known[OF assms Cons.prems(1) m]
  have "\<forall>(k, v) \<in> set c1. known_classes (map c_Name characters) v" .
  from Cons.IH[OF this rest] show ?case .
qed

lemma vendor_row_step_known:
  assumes "characters_linked characters row"
    and "\<forall>(k, v) \<in> set compress. known_classes (map c_Name characters) v"
    and "vendor_row_step quest_states quest_index row (compress, warnings) = Inr (compress', warnings')"
  shows "\<forall>(k, v) \<in> set compress'. known_classes (map c_Name characters) v"
proof -
  from assms(3) have "compress' = compress \<or> (\<exists>quests. vendor_quests row quests compress = Inr compress')"
    by (auto simp: vendor_row_step_def simp del: vendor_quests.simps
             split: if_splits sum.splits)
  then show ?thesis
  proof
    assume "compress' = compress"
    with assms(2) show ?thesis by simp
  next
    assume "\<exists>quests. vendor_quests row quests compress = Inr compress'"
    then obtain quests where "vendor_quests row quests compress = Inr compress'" ..
    from vendor_quests_known[OF assms(1,2) this] show ?thesis .
  qed
qed

lemma vendor_rows_known:
  "list_all (characters_linked characters) rows \<Longrightarrow>
   \<forall>(k, v) \<in> set compress. known_classes (map c_Name characters) v \<Longrightarrow>
   vendor_rows quest_states quest_index rows (compress, warnings) = Inr (compress', warnings') \<Longrightarrow>
   \<forall>(k, v) \<in> set compress'. known_classes (map c_Name characters) v"
proof (induction rows arbitrary: compress warnings)
  case Nil
  then show ?case by simp
next
  case (Cons row rows)
  from Cons.prems(3) obtain c1 w1
    where step: "vendor_row_step quest_states quest_index row (compress, warnings) = Inr (c1, w1)"
      and rest: "vendor_rows quest_states quest_index rows (c1, w1) = Inr (compress', warnings')"
    by (auto split: sum.splits)
  from Cons.prems(1) have row: "characters_linked characters row"
    and rows: "list_all (characters_linked characters) rows"
    by auto
  from vendor_row_step_known[OF row Cons.prems(2) step]
  have "\<forall>(k, v) \<in> set c1. known_classes (map c_Name characters) v" .
  from Cons.IH[OF rows this rest] show ?case .
qed

lemma known_classes_equal:
  assumes "known_classes names [(''classes'', Atom (AStr s))]"
  shows "set names \<subseteq> set (split unit_sep s) \<longleftrightarrow> set (split unit_sep s) = set names"
proof
  assume all: "set names \<subseteq> set (split unit_sep s)"
  have "set (split unit_sep n) = {n}" if "n \<in> set names" for n
  proof -
    from that all have "n \<in> set (split unit_sep s)" by auto
    then have "unit_sep \<notin> set n" by (rule split_pieces_free)
    then show ?thesis by (simp add: split_free)
  qed
  then have "(\<Union>n \<in> set names. set (split unit_sep n)) = set names" by auto
  with assms have "set (split unit_sep s) \<subseteq> set names"
    by (simp add: known_classes_def)
  with all show "set (split unit_sep s) = set names" by auto
next
  assume "set (split unit_sep s) = set names"
  then show "set names \<subseteq> set (split unit_sep s)" by simp
qed

lemma prune_classes_known:
  assumes "known_classes names v"
  shows "\<exists>v'. prune_classes names v = Inr v'"
  using assms
  by (auto simp: prune_classes_def known_classes_def Let_def split: option.splits pyval.splits atom.splits)

lemma postprocess_known:
  "\<forall>(k, v) \<in> set compress. known_classes names v \<Longrightarrow>
   \<exists>compress'. postprocess names compress = Inr compress'"
proof (induction compress)
  case Nil
  then show ?case by simp
next
  case (Cons kv compress)
  obtain k v where kv: "kv = (k, v)" by (cases kv)
  with Cons.prems have "known_classes names v" by simp
  from prune_classes_known[OF this] obtain v' where "prune_classes names v = Inr v'" ..
  moreover from Cons obtain rest where "postprocess names compress = Inr rest" by auto
  ultimately show ?case using kv by simp
qed

lemma postprocess_mem:
  "postprocess names compress = Inr compress' \<Longrightarrow> (k, v) \<in> set compress \<Longrightarrow>
   \<exists>v'. prune_classes names v = Inr v' \<and> (k, v') \<in> set compress'"
proof (induction compress arbitrary: compress')
  case Nil
  then show ?case by simp
next
  case (Cons kv compress)
  obtain k0 v0 where kv: "kv = (k0, v0)" by (cases kv)
  from Cons.prems(1) kv obtain v0' rest
    where p: "prune_classes names v0 = Inr v0'"
      and r: "postprocess names compress = Inr rest"
      and c': "compress' = (k0, v0') # rest"
    by (auto split: sum.splits)
  show ?case
  proof (cases "(k, v) = (k0, v0)")
    case True
    with p c' show ?thesis by auto
  next
    case False
    with Cons.prems(2) kv have "(k, v) \<in> set compress" by auto
    from Cons.IH[OF r this] c' show ?thesis by auto
  qed
qed

text \<open>
  Claim C1. Let the table loop return, on vendor rows whose character references are rows of
  \<^verbatim>\<open>Characters.dat\<close>, and take a merged record with a \<^verbatim>\<open>classes\<close> field. The field
  is a string, and the post-processing pass does not raise. In the record it leaves under
  the same identity key, the field is gone exactly when the values that the string splits
  into are the set of all names of \<^verbatim>\<open>Characters.dat\<close>; otherwise the field is the
  separator-join of those values, sorted and without repetition. No other field changes,
  and a concatenation of the same values in any order, with any repetition, gives the same
  record.
\<close>

theorem merged_classes_rule:
  assumes "list_all (characters_linked characters) rows"
    and "vendor_rows quest_states quest_index rows ([], []) = Inr (compress, warnings)"
    and "(k, v) \<in> set compress"
    and "map_of v ''classes'' = Some c"
  shows "\<exists>s v' compress'. c = Atom (AStr s)
     \<and> postprocess (map c_Name characters) compress = Inr compress'
     \<and> prune_classes (map c_Name characters) v = Inr v'
     \<and> (k, v') \<in> set compress'
     \<and> (map_of v' ''classes'' = None
          \<longleftrightarrow> set (split unit_sep s) = set (map c_Name characters))
     \<and> (set (split unit_sep s) \<noteq> set (map c_Name characters) \<longrightarrow>
          map_of v' ''classes''
            = Some (Atom (AStr (join [unit_sep] (sorted_list_of_set (set (split unit_sep s)))))))
     \<and> (\<forall>k'. k' \<noteq> ''classes'' \<longrightarrow> map_of v' k' = map_of v k')
     \<and> (\<forall>t. set (split unit_sep t) = set (split unit_sep s) \<longrightarrow>
            prune_classes (map c_Name characters) (setitem v ''classes'' (Atom (AStr t))) = Inr v')"
proof -
  let ?names = "map c_Name characters"
  have "\<forall>(k, v) \<in> set []. known_classes ?names v" by simp
  from vendor_rows_known[OF assms(1) this assms(2)]
  have known: "\<forall>(k, v) \<in> set compress. known_classes ?names v" .
  from postprocess_known[OF this]
  obtain compress' where post: "postprocess ?names compress = Inr compress'" ..
  from known assms(3) have "known_classes ?names v" by auto
  with assms(4) obtain s where s: "c = Atom (AStr s)"
    and ks: "known_classes ?names [(''classes'', Atom (AStr s))]"
    by (auto simp: known_classes_field[of ?names v])
  from assms(4) s have field: "map_of v ''classes'' = Some (Atom (AStr s))" by simp
  let ?v' = "if set ?names \<subseteq> set (split unit_sep s)
             then delitem v ''classes''
             else setitem v ''classes''
                    (Atom (AStr (join [unit_sep] (sorted_list_of_set (set (split unit_sep s))))))"
  have run: "prune_classes ?names v = Inr ?v'"
    by (rule prune_classes_str[OF field])
  from postprocess_mem[OF post assms(3)] run have mem: "(k, ?v') \<in> set compress'"
    by simp
  note eq = known_classes_equal[OF ks]
  have dropped: "map_of ?v' ''classes'' = None \<longleftrightarrow> set (split unit_sep s) = set ?names"
    unfolding eq[symmetric] by (simp add: map_of_delitem map_of_setitem)
  have written: "set (split unit_sep s) \<noteq> set ?names \<longrightarrow>
          map_of ?v' ''classes''
            = Some (Atom (AStr (join [unit_sep] (sorted_list_of_set (set (split unit_sep s))))))"
    unfolding eq[symmetric] by (simp add: map_of_setitem)
  have frame: "\<forall>k'. k' \<noteq> ''classes'' \<longrightarrow> map_of ?v' k' = map_of v k'"
    by (simp add: map_of_delitem map_of_setitem)
  have order: "\<forall>t. set (split unit_sep t) = set (split unit_sep s) \<longrightarrow>
            prune_classes ?names (setitem v ''classes'' (Atom (AStr t))) = Inr ?v'"
    using prune_classes_order[OF field run] by blast
  from s post run mem dropped written frame order
  have "c = Atom (AStr s)
     \<and> postprocess ?names compress = Inr compress'
     \<and> prune_classes ?names v = Inr ?v'
     \<and> (k, ?v') \<in> set compress'
     \<and> (map_of ?v' ''classes'' = None \<longleftrightarrow> set (split unit_sep s) = set ?names)
     \<and> (set (split unit_sep s) \<noteq> set ?names \<longrightarrow>
          map_of ?v' ''classes''
            = Some (Atom (AStr (join [unit_sep] (sorted_list_of_set (set (split unit_sep s)))))))
     \<and> (\<forall>k'. k' \<noteq> ''classes'' \<longrightarrow> map_of ?v' k' = map_of v k')
     \<and> (\<forall>t. set (split unit_sep t) = set (split unit_sep s) \<longrightarrow>
            prune_classes ?names (setitem v ''classes'' (Atom (AStr t))) = Inr ?v')"
    by (intro conjI)
  then show ?thesis by (intro exI)
qed

text \<open>
  The two sample rows that share quest and item, one for the Witch and one for the Shadow,
  merge into one record. With a third character in \<^verbatim>\<open>Characters.dat\<close> its field ends as
  Shadow, separator, Witch; with these two alone the field is dropped.
\<close>

theorem merged_classes_rule_witness:
  "list_all (characters_linked sample_characters) sample_vendor_rows
   \<and> vendor_rows sample_states sample_index sample_vendor_rows ([], [])
       = Inr ([(''a1q1Ring12'', sample_merged)],
              [NoQuest 1 99 ''Nessa'' [''Two-Stone Ring''], NoItems 2])
   \<and> map_of sample_merged ''classes'' = Some (Atom (AStr (''Witch'' @ [unit_sep] @ ''Shadow'')))
   \<and> postprocess (map c_Name sample_characters) [(''a1q1Ring12'', sample_merged)]
       = Inr [(''a1q1Ring12'',
               [(''quest'', Atom (AStr ''Enemy at the Gate'')), (''quest_id'', Atom (AStr ''a1q1'')),
                (''act'', Atom (AInt 1)), (''reward'', Atom (AStr ''Two-Stone Ring'')),
                (''npc'', Atom (AStr ''Nessa'')),
                (''classes'', Atom (AStr (''Shadow'' @ [unit_sep] @ ''Witch'')))])]
   \<and> postprocess [''Witch'', ''Shadow''] [(''a1q1Ring12'', sample_merged)]
       = Inr [(''a1q1Ring12'',
               [(''quest'', Atom (AStr ''Enemy at the Gate'')), (''quest_id'', Atom (AStr ''a1q1'')),
                (''act'', Atom (AInt 1)), (''reward'', Atom (AStr ''Two-Stone Ring'')),
                (''npc'', Atom (AStr ''Nessa''))])]"
proof -
  let ?pruned = "[(''quest'', Atom (AStr ''Enemy at the Gate'')), (''quest_id'', Atom (AStr ''a1q1'')),
                (''act'', Atom (AInt 1)), (''reward'', Atom (AStr ''Two-Stone Ring'')),
                (''npc'', Atom (AStr ''Nessa'')),
                (''classes'', Atom (AStr (''Shadow'' @ [unit_sep] @ ''Witch'')))]"
  have linked: "list_all (characters_linked sample_characters) sample_vendor_rows"
    by (simp add: sample_defs characters_linked_def)
  have run: "vendor_rows sample_states sample_index sample_vendor_rows ([], [])
       = Inr ([(''a1q1Ring12'', sample_merged)],
              [NoQuest 1 99 ''Nessa'' [''Two-Stone Ring''], NoItems 2])"
    by (simp add: sample_defs vendor_defs)
  have mem: "(''a1q1Ring12'', sample_merged) \<in> set [(''a1q1Ring12'', sample_merged)]"
    by simp
  have field: "map_of sample_merged ''classes'' = Some (Atom (AStr (''Witch'' @ [unit_sep] @ ''Shadow'')))"
    by (simp add: sample_merged_def)
  have differ: "set (split unit_sep (''Witch'' @ [unit_sep] @ ''Shadow''))
                  \<noteq> set (map c_Name sample_characters)"
  proof
    assume same: "set (split unit_sep (''Witch'' @ [unit_sep] @ ''Shadow''))
                    = set (map c_Name sample_characters)"
    have "''Ranger'' \<in> set (map c_Name sample_characters)"
      by (simp add: sample_characters_def)
    with same have known: "''Ranger'' \<in> set (split unit_sep (''Witch'' @ [unit_sep] @ ''Shadow''))"
      by (simp only:)
    have "''Ranger'' \<notin> set (split unit_sep (''Witch'' @ [unit_sep] @ ''Shadow''))"
      by simp
    from this known show False by (rule notE)
  qed
  have sorted: "join [unit_sep] (sorted_list_of_set (set (split unit_sep (''Witch'' @ [unit_sep] @ ''Shadow''))))
                  = ''Shadow'' @ [unit_sep] @ ''Witch''"
    by (simp add: sorted_list_of_set_sort_remdups)
  from merged_classes_rule[OF linked run mem field] obtain v' compress'
    where post: "postprocess (map c_Name sample_characters) [(''a1q1Ring12'', sample_merged)] = Inr compress'"
      and v': "(''a1q1Ring12'', v') \<in> set compress'"
      and written: "set (split unit_sep (''Witch'' @ [unit_sep] @ ''Shadow''))
                      \<noteq> set (map c_Name sample_characters) \<longrightarrow>
            map_of v' ''classes''
              = Some (Atom (AStr (join [unit_sep]
                   (sorted_list_of_set (set (split unit_sep (''Witch'' @ [unit_sep] @ ''Shadow'')))))))"
    by auto
  have three: "postprocess (map c_Name sample_characters) [(''a1q1Ring12'', sample_merged)]
       = Inr [(''a1q1Ring12'', ?pruned)]"
    by (simp add: sample_characters_def sample_merged_def prune_classes_def)
  from post three have "compress' = [(''a1q1Ring12'', ?pruned)]" by simp
  with v' have "v' = ?pruned" by simp
  with written differ sorted
  have joined: "map_of ?pruned ''classes'' = Some (Atom (AStr (''Shadow'' @ [unit_sep] @ ''Witch'')))"
    by (simp only: simp_thms)
  from post \<open>compress' = [(''a1q1Ring12'', ?pruned)]\<close>
  have pass: "postprocess (map c_Name sample_characters) [(''a1q1Ring12'', sample_merged)]
       = Inr [(''a1q1Ring12'', ?pruned)]"
    by (simp only:)
  have two: "postprocess [''Witch'', ''Shadow''] [(''a1q1Ring12'', sample_merged)]
       = Inr [(''a1q1Ring12'',
               [(''quest'', Atom (AStr ''Enemy at the Gate'')), (''quest_id'', Atom (AStr ''a1q1'')),
                (''act'', Atom (AInt 1)), (''reward'', Atom (AStr ''Two-Stone Ring'')),
                (''npc'', Atom (AStr ''Nessa''))])]"
    by (simp add: sample_merged_def prune_classes_def delitem_def)
  from linked run field pass two joined show ?thesis by (intro conjI)
qed

end
